theory Spec2Isabelle
  imports Main "HOL-Library.Word"
begin

section \<open>Values and the outside world\<close>

text \<open>
  The program is \<^verbatim>\<open>src/stocktracker/main.go\<close>. Its handlers are pure but for four
  effects: reading the clock, one HTTP GET against the provider, writing the log, and (for
  the streaming handler) the upgraded connection and its ticker. Each effect is made
  explicit: what the world answers is an argument of the model, what the program does to
  the world is a list of events it returns.

  A \<^verbatim>\<open>float64\<close> is carried as its 64 bits; the program never computes with one, it
  copies them from the provider to the client. The zero value is the word 0. Go's
  \<^verbatim>\<open>int\<close> and \<^verbatim>\<open>int64\<close> are 64 bits wide (a 64-bit platform); they are
  \<open>int\<close> here, and the one place where the program multiplies (the duration of line 91)
  has its wrap-around written out. A slice is a list; \<^verbatim>\<open>nil\<close> and the empty slice
  are both \<open>[]\<close>, as \<^verbatim>\<open>len\<close> sees them.
\<close>

type_synonym float64 = "64 word"

text \<open>An instant of the wall clock, in nanoseconds since the Unix epoch.\<close>

type_synonym time = int

text \<open>\<^verbatim>\<open>time.Duration\<close>: an \<^verbatim>\<open>int64\<close> count of nanoseconds.\<close>

type_synonym duration = int

definition wrap64 :: "int \<Rightarrow> int" where
  "wrap64 x = sint (word_of_int x :: 64 word)"

definition Second :: duration where
  "Second = 1000000000"

definition Minute :: duration where
  "Minute = 60 * Second"

definition Unix :: "time \<Rightarrow> int" where
  "Unix t = t div 1000000000"

definition UnixMilli :: "time \<Rightarrow> int" where
  "UnixMilli t = t div 1000000"

definition Add :: "time \<Rightarrow> duration \<Rightarrow> time" where
  "Add t d = t + d"

text \<open>Lines 14 to 21.\<close>

definition apiKey :: string where
  "apiKey = ''d2eb0h1r01qr1ro92pd0d2eb0h1r01qr1ro92pdg''"

definition livePollInterval :: duration where
  "livePollInterval = 5 * Second"

text \<open>
  The errors the program handles. It never looks inside one: it tests \<^verbatim>\<open>err != nil\<close>
  and logs. \<open>StatusError\<close> carries the message \<^verbatim>\<open>fmt.Errorf\<close> builds at lines 76 and 102;
  \<open>EOF\<close> and \<open>UnexpectedEOF\<close> are \<^verbatim>\<open>io.EOF\<close> and \<^verbatim>\<open>io.ErrUnexpectedEOF\<close>.
\<close>

datatype error =
    TransportError string
  | StatusError string
  | SyntaxError
  | EOF
  | UnexpectedEOF
  | UnmarshalTypeError
  | NumError
  | UpgradeError string
  | WriteError string

text \<open>Lines 28 to 44: the provider's two answers.\<close>

record quoteResp =
  Current :: float64
  High :: float64
  Low :: float64
  Open :: float64
  PrevClose :: float64

record candleResp =
  Close :: "float64 list"
  High :: "float64 list"
  Low :: "float64 list"
  Open :: "float64 list"
  Time :: "int list"
  Volume :: "float64 list"
  S :: string

text \<open>
  The two URLs of lines 68 and 92, by their parts: the symbol and the token, and for the
  candles the bounds \<^verbatim>\<open>from\<close> and \<^verbatim>\<open>to\<close> (the resolution is the constant 1).
\<close>

datatype url =
    QuoteURL string string
  | CandleURL string int int string

text \<open>
  What \<^verbatim>\<open>httpClient.Get\<close> returns: an error, or a response with its status code, its
  status line and its body. The body is given by what the JSON decoder makes of it (the
  type \<open>'b\<close>).
\<close>

datatype 'b http_result =
    Failed error
  | Response int string 'b

text \<open>
  A value of type \<^verbatim>\<open>any\<close> that the handlers put into a JSON object, and the object
  itself, a \<^verbatim>\<open>map[string]any\<close>.
\<close>

datatype any =
    AString string
  | AFloat64 float64
  | AInt64 int
  | AFloat64s "float64 list"
  | AInt64s "int list"
  | AAnys "any list"

type_synonym object = "string \<rightharpoonup> any"

record http_response =
  code :: int
  content_type :: string
  body :: object

datatype effect =
    HttpGet url
  | LogPrintln string error

section \<open>Library functions the handlers call\<close>

text \<open>
  \<^verbatim>\<open>url.Values\<close> is a \<^verbatim>\<open>map[string][]string\<close>; \<^verbatim>\<open>Get\<close> returns the first value
  of the key, and the empty string when the key is absent or has no value.
\<close>

type_synonym url_values = "string \<rightharpoonup> string list"

definition Get :: "url_values \<Rightarrow> string \<Rightarrow> string" where
  "Get v key = (case v key of None \<Rightarrow> [] | Some [] \<Rightarrow> [] | Some (x # _) \<Rightarrow> x)"

text \<open>
  \<^verbatim>\<open>strconv.Atoi\<close>: an optional sign, then one or more decimal digits and nothing else;
  a value outside the 64-bit \<^verbatim>\<open>int\<close> is an error as well.
\<close>

definition is_digit :: "char \<Rightarrow> bool" where
  "is_digit ch = (48 \<le> (of_char ch :: nat) \<and> (of_char ch :: nat) \<le> 57)"

fun digits_value :: "string \<Rightarrow> nat \<Rightarrow> nat option" where
  "digits_value [] n = Some n"
| "digits_value (ch # s) n =
     (if is_digit ch then digits_value s (n * 10 + (of_char ch - 48)) else None)"

definition Atoi :: "string \<Rightarrow> error + int" where
  "Atoi s0 =
     (case s0 of
        [] \<Rightarrow> Inl NumError
      | c0 # rest \<Rightarrow>
          (let s = (if c0 = CHR ''-'' \<or> c0 = CHR ''+'' then rest else s0) in
           if s = [] then Inl NumError
           else case digits_value s 0 of
                  None \<Rightarrow> Inl NumError
                | Some n \<Rightarrow>
                    (let v = (if c0 = CHR ''-'' then - int n else int n) in
                     if v < - (2 ^ 63) \<or> 2 ^ 63 - 1 < v then Inl NumError else Inr v)))"

section \<open>HTTP helpers (lines 48 to 61)\<close>

definition writeJSON :: "int \<Rightarrow> object \<Rightarrow> http_response" where
  "writeJSON status v = \<lparr>code = status, content_type = ''application/json'', body = v\<rparr>"

definition badRequest :: "string \<Rightarrow> http_response" where
  "badRequest msg = writeJSON 400 [''error'' \<mapsto> AString msg]"

definition serverError :: "error \<Rightarrow> effect list \<times> http_response" where
  "serverError err =
     ([LogPrintln ''server error:'' err],
      writeJSON 500 [''error'' \<mapsto> AString ''internal_error''])"

section \<open>The candle fetch (lines 86 to 110)\<close>

text \<open>
  \<open>now_to\<close> and \<open>now_from\<close> are the two readings of \<^verbatim>\<open>time.Now()\<close>, at line 90 and at
  line 91. \<open>get\<close> is the provider: what \<^verbatim>\<open>httpClient.Get\<close> returns for a URL, the body
  given as the outcome of \<^verbatim>\<open>Decode(&c)\<close>. The function returns the URL it asked for
  beside its result.
\<close>

definition fetchCandles ::
  "time \<Rightarrow> time \<Rightarrow> (url \<Rightarrow> (error + candleResp) http_result) \<Rightarrow> string \<Rightarrow> int
     \<Rightarrow> url \<times> (error + candleResp)" where
  "fetchCandles now_to now_from get symbol minutes0 =
     (let minutes = (if minutes0 \<le> 0 then 60 else minutes0);
          to = Unix now_to;
          from = Unix (Add now_from (wrap64 (wrap64 (- minutes) * Minute)));
          u = CandleURL symbol from to apiKey
      in (u,
          case get u of
            Failed err \<Rightarrow> Inl err
          | Response sc st decoded \<Rightarrow>
              if sc < 200 \<or> sc \<ge> 300 then Inl (StatusError (''candle status '' @ st))
              else decoded))"

section \<open>The bars handler (lines 125 to 164)\<close>

text \<open>Lines 132 to 138: the window the handler asks for, from the text of \<^verbatim>\<open>minutes\<close>.\<close>

definition window_minutes :: "string \<Rightarrow> int" where
  "window_minutes minStr =
     (if minStr \<noteq> [] then
        (case Atoi minStr of
           Inr v \<Rightarrow> if v > 0 \<and> v \<le> 5000 then v else 60
         | Inl err \<Rightarrow> 60)
      else 60)"

definition handleCandles ::
  "time \<Rightarrow> time \<Rightarrow> (url \<Rightarrow> (error + candleResp) http_result) \<Rightarrow> url_values
     \<Rightarrow> effect list \<times> http_response" where
  "handleCandles now_to now_from get query =
     (let symbol = Get query ''symbol'' in
      if symbol = [] then ([], badRequest ''symbol is required'')
      else
        let minStr = Get query ''minutes'';
            minutes = window_minutes minStr
        in case fetchCandles now_to now_from get symbol minutes of
             (u, Inl err) \<Rightarrow>
               (case serverError err of (logged, resp) \<Rightarrow> (HttpGet u # logged, resp))
           | (u, Inr c) \<Rightarrow>
               if S c \<noteq> ''ok'' \<or> length (Time c) = 0 then
                 ([HttpGet u],
                  writeJSON 200
                    [''symbol'' \<mapsto> AString symbol,
                     ''status'' \<mapsto> AString (S c),
                     ''candles'' \<mapsto> AAnys []])
               else
                 ([HttpGet u],
                  writeJSON 200
                    [''symbol'' \<mapsto> AString symbol,
                     ''status'' \<mapsto> AString (S c),
                     ''t'' \<mapsto> AInt64s (Time c),
                     ''o'' \<mapsto> AFloat64s (candleResp.Open c),
                     ''h'' \<mapsto> AFloat64s (candleResp.High c),
                     ''l'' \<mapsto> AFloat64s (candleResp.Low c),
                     ''c'' \<mapsto> AFloat64s (Close c),
                     ''v'' \<mapsto> AFloat64s (Volume c)]))"

text \<open>The GET requests among the effects of a handler, in order.\<close>

fun upstream_calls :: "effect list \<Rightarrow> url list" where
  "upstream_calls [] = []"
| "upstream_calls (HttpGet u # es) = u # upstream_calls es"
| "upstream_calls (LogPrintln m e # es) = upstream_calls es"

section \<open>The quote fetch (lines 67 to 84)\<close>

text \<open>
  The body of a quote response is given one level lower than the candles': by what
  \<^verbatim>\<open>Decode\<close> reads from it. The decoder reads one JSON value from the start of the body
  and stops there: what follows that value in the body is never read. So a body is either
  \<open>FirstValue j\<close>, when it begins (after white space) with the well-formed JSON value
  \<open>j\<close>, or \<open>ReadError e\<close>, when it does not: \<open>e\<close> is a \<open>SyntaxError\<close>, \<open>EOF\<close> for
  an empty body, \<open>UnexpectedEOF\<close> for a body that ends inside its first value, or the
  error of the connection.

  A number literal is carried as what \<^verbatim>\<open>strconv.ParseFloat(lit, 64)\<close> makes of it:
  \<open>None\<close> when the literal is out of the range of a \<^verbatim>\<open>float64\<close>.
\<close>

datatype json =
    JNull
  | JBool bool
  | JNumber "float64 option"
  | JString string
  | JArray "json list"
  | JObject "(string \<times> json) list"

datatype read_value =
    ReadError error
  | FirstValue json

text \<open>
  \<^verbatim>\<open>Decode(&q)\<close> on a \<open>quoteResp\<close>, as \<^verbatim>\<open>encoding/json\<close> does it. A member of the
  object is matched to the field whose tag is its key, letter case ignored; other members
  are skipped. \<^verbatim>\<open>null\<close> leaves a field as it is, a number in range is stored, anything
  else saves an \<open>UnmarshalTypeError\<close> and decoding goes on; the first saved error is
  returned at the end. At top level \<^verbatim>\<open>null\<close> leaves the struct as it is, and anything
  but an object is an \<open>UnmarshalTypeError\<close>.
\<close>

datatype quote_field = FCurrent | FHigh | FLow | FOpen | FPrevClose

definition field_of_key :: "string \<Rightarrow> quote_field option" where
  "field_of_key k =
     (if k = ''c'' \<or> k = ''C'' then Some FCurrent
      else if k = ''h'' \<or> k = ''H'' then Some FHigh
      else if k = ''l'' \<or> k = ''L'' then Some FLow
      else if k = ''o'' \<or> k = ''O'' then Some FOpen
      else if k = ''pc'' \<or> k = ''Pc'' \<or> k = ''pC'' \<or> k = ''PC'' then Some FPrevClose
      else None)"

fun get_field :: "quote_field \<Rightarrow> quoteResp \<Rightarrow> float64" where
  "get_field FCurrent q = Current q"
| "get_field FHigh q = quoteResp.High q"
| "get_field FLow q = quoteResp.Low q"
| "get_field FOpen q = quoteResp.Open q"
| "get_field FPrevClose q = PrevClose q"

fun set_field :: "quote_field \<Rightarrow> float64 \<Rightarrow> quoteResp \<Rightarrow> quoteResp" where
  "set_field FCurrent x q = q\<lparr>Current := x\<rparr>"
| "set_field FHigh x q = q\<lparr>quoteResp.High := x\<rparr>"
| "set_field FLow x q = q\<lparr>quoteResp.Low := x\<rparr>"
| "set_field FOpen x q = q\<lparr>quoteResp.Open := x\<rparr>"
| "set_field FPrevClose x q = q\<lparr>PrevClose := x\<rparr>"

fun store_float64 :: "json \<Rightarrow> float64 \<Rightarrow> float64 \<times> error option" where
  "store_float64 JNull old = (old, None)"
| "store_float64 (JNumber n) old =
     (case n of Some x \<Rightarrow> (x, None) | None \<Rightarrow> (old, Some UnmarshalTypeError))"
| "store_float64 (JBool b) old = (old, Some UnmarshalTypeError)"
| "store_float64 (JString s) old = (old, Some UnmarshalTypeError)"
| "store_float64 (JArray xs) old = (old, Some UnmarshalTypeError)"
| "store_float64 (JObject kvs) old = (old, Some UnmarshalTypeError)"

fun saveError :: "error option \<Rightarrow> error option \<Rightarrow> error option" where
  "saveError None new = new"
| "saveError (Some e) new = Some e"

fun decode_members ::
  "(string \<times> json) list \<Rightarrow> quoteResp \<Rightarrow> error option \<Rightarrow> quoteResp \<times> error option" where
  "decode_members [] q saved = (q, saved)"
| "decode_members ((k, v) # kvs) q saved =
     (case field_of_key k of
        None \<Rightarrow> decode_members kvs q saved
      | Some f \<Rightarrow>
          (case store_float64 v (get_field f q) of
             (x, e) \<Rightarrow> decode_members kvs (set_field f x q) (saveError saved e)))"

definition zero_quoteResp :: quoteResp where
  "zero_quoteResp =
     \<lparr>Current = 0, quoteResp.High = 0, quoteResp.Low = 0, quoteResp.Open = 0, PrevClose = 0\<rparr>"

definition decode_quoteResp :: "read_value \<Rightarrow> error + quoteResp" where
  "decode_quoteResp b =
     (case b of
        ReadError e \<Rightarrow> Inl e
      | FirstValue JNull \<Rightarrow> Inr zero_quoteResp
      | FirstValue (JObject kvs) \<Rightarrow>
          (case decode_members kvs zero_quoteResp None of
             (q, None) \<Rightarrow> Inr q
           | (q, Some e) \<Rightarrow> Inl e)
      | FirstValue other \<Rightarrow> Inl UnmarshalTypeError)"

definition fetchQuote :: "(url \<Rightarrow> read_value http_result) \<Rightarrow> string \<Rightarrow> error + quoteResp" where
  "fetchQuote get symbol =
     (case get (QuoteURL symbol apiKey) of
        Failed err \<Rightarrow> Inl err
      | Response sc st b \<Rightarrow>
          if sc < 200 \<or> sc \<ge> 300 then Inl (StatusError (''quote status '' @ st))
          else decode_quoteResp b)"

section \<open>The streaming handler (lines 168 to 210)\<close>

text \<open>
  What the world answers during one call of \<^verbatim>\<open>sendQuote\<close>: the provider, the clock at
  line 193 and at line 195, and the result of \<^verbatim>\<open>conn.WriteJSON\<close>.
\<close>

record call_io =
  provider :: "url \<Rightarrow> read_value http_result"
  now_payload :: time
  now_deadline :: time
  write_result :: "error option"

text \<open>
  What the handler does, in order. \<open>Tick\<close> is a value received from \<^verbatim>\<open>ticker.C\<close>;
  \<open>FetchQuote\<close> and \<open>WriteJSON\<close> carry what the call returned.
\<close>

datatype ws_event =
    NewTicker duration
  | FetchQuote string "error + quoteResp"
  | SetWriteDeadline time
  | WriteJSON object "error option"
  | Tick
  | Log string error
  | TickerStop
  | ConnClose

text \<open>
  The handler either has returned, or waits for the next value of \<^verbatim>\<open>ticker.C\<close> (the
  channel is never closed, so the loop of line 204 ends only by the \<^verbatim>\<open>return\<close> of
  line 207).
\<close>

datatype outcome = Returned | Waiting

definition sendQuote :: "string \<Rightarrow> call_io \<Rightarrow> ws_event list \<times> error option" where
  "sendQuote symbol io =
     (case fetchQuote (provider io) symbol of
        Inl err \<Rightarrow> ([FetchQuote symbol (Inl err)], Some err)
      | Inr q \<Rightarrow>
          (let payload =
                 [''symbol'' \<mapsto> AString symbol,
                  ''price'' \<mapsto> AFloat64 (Current q),
                  ''time'' \<mapsto> AInt64 (UnixMilli (now_payload io))]
           in ([FetchQuote symbol (Inr q),
                SetWriteDeadline (Add (now_deadline io) (5 * Second)),
                WriteJSON payload (write_result io)],
               write_result io)))"

text \<open>
  The loop of lines 204 to 209, over the answers of the world to the ticks that arrive.
  When they are used up the handler waits.
\<close>

fun ticker_loop :: "string \<Rightarrow> call_io list \<Rightarrow> ws_event list \<times> outcome" where
  "ticker_loop symbol [] = ([], Waiting)"
| "ticker_loop symbol (io # ios) =
     (case sendQuote symbol io of
        (evs, Some err) \<Rightarrow> (Tick # evs @ [Log ''ws send:'' err], Returned)
      | (evs, None) \<Rightarrow>
          (case ticker_loop symbol ios of (rest, out) \<Rightarrow> (Tick # evs @ rest, out)))"

text \<open>
  The calls deferred at lines 179 and 182 run when the handler returns, the last deferred
  first.
\<close>

definition deferred :: "ws_event list" where
  "deferred = [TickerStop, ConnClose]"

text \<open>
  \<open>upgrade\<close> is the error of \<^verbatim>\<open>upgrader.Upgrade\<close>, if any; \<open>first\<close> answers the call of
  line 199 and \<open>ticks\<close> the calls of the loop.
\<close>

definition handleWS ::
  "url_values \<Rightarrow> error option \<Rightarrow> call_io \<Rightarrow> call_io list \<Rightarrow> ws_event list \<times> outcome" where
  "handleWS query upgrade first ticks =
     (let symbol = (if Get query ''symbol'' = [] then ''AAPL'' else Get query ''symbol'') in
      case upgrade of
        Some err \<Rightarrow> ([Log ''ws upgrade:'' err], Returned)
      | None \<Rightarrow>
          (case sendQuote symbol first of
             (evs, Some err) \<Rightarrow>
               (NewTicker livePollInterval # evs @ [Log ''ws first send:'' err] @ deferred,
                Returned)
           | (evs, None) \<Rightarrow>
               (case ticker_loop symbol ticks of
                  (rest, Returned) \<Rightarrow>
                    (NewTicker livePollInterval # evs @ rest @ deferred, Returned)
                | (rest, Waiting) \<Rightarrow>
                    (NewTicker livePollInterval # evs @ rest, Waiting))))"

section \<open>Observations on the bars handler\<close>




text \<open>
  The URL the handler asks for when the symbol is present, and the length in seconds of
  the window a candle URL spans.
\<close>

definition requested_url :: "time \<Rightarrow> time \<Rightarrow> url_values \<Rightarrow> url" where
  "requested_url now_to now_from query =
     CandleURL (Get query ''symbol'')
       (Unix now_from - 60 * window_minutes (Get query ''minutes'')) (Unix now_to) apiKey"

fun window_seconds :: "url \<Rightarrow> int" where
  "window_seconds (CandleURL symbol from to token) = to - from"
| "window_seconds (QuoteURL symbol token) = 0"

subsection \<open>Concrete requests and provider answers\<close>

text \<open>
  The request \<^verbatim>\<open>/api/candles?symbol=TSLA&minutes=...\<close>; the two bars of the
  scenario of the specification (the numbers are the bits of 10, 11, 12, 9, 11.5, 100 and
  150 as \<^verbatim>\<open>float64\<close>); the same answer with one opening price missing; an answer
  without data; and three providers.
\<close>

definition query_TSLA :: "string \<Rightarrow> url_values" where
  "query_TSLA minStr = [''symbol'' \<mapsto> [''TSLA''], ''minutes'' \<mapsto> [minStr]]"

definition candles_ok :: candleResp where
  "candles_ok =
     \<lparr>Close = [4622382067542392832, 4622663542519103488],
      High = [4622945017495814144, 4622945017495814144],
      Low = [4621256167635550208, 4621256167635550208],
      Open = [4621819117588971520, 4622382067542392832],
      Time = [1000, 1060],
      Volume = [4636737291354636288, 4639481672377565184],
      S = ''ok''\<rparr>"



definition provider_candles :: "candleResp \<Rightarrow> url \<Rightarrow> (error + candleResp) http_result" where
  "provider_candles c u = Response 200 ''200 OK'' (Inr c)"

definition provider_down :: "url \<Rightarrow> (error + candleResp) http_result" where
  "provider_down u = Failed (TransportError ''dial tcp: i/o timeout'')"

definition provider_429 :: "url \<Rightarrow> (error + candleResp) http_result" where
  "provider_429 u = Response 429 ''429 Too Many Requests'' (Inl SyntaxError)"

section \<open>Observations on the quote fetch\<close>

text \<open>
  What the decoder accepts, said directly: a first value that is \<^verbatim>\<open>null\<close>, or an
  object in which every member that names a field of \<open>quoteResp\<close> holds \<^verbatim>\<open>null\<close> or
  a number in range.
  \<open>mentions f kvs\<close>: some member of the object names the field \<open>f\<close>.
\<close>

fun storable :: "json \<Rightarrow> bool" where
  "storable JNull = True"
| "storable (JNumber x) = (x \<noteq> None)"
| "storable (JBool b) = False"
| "storable (JString s) = False"
| "storable (JArray xs) = False"
| "storable (JObject kvs) = False"

fun members_ok :: "(string \<times> json) list \<Rightarrow> bool" where
  "members_ok [] = True"
| "members_ok ((k, v) # kvs) = ((field_of_key k = None \<or> storable v) \<and> members_ok kvs)"

fun decodable :: "read_value \<Rightarrow> bool" where
  "decodable (ReadError e) = False"
| "decodable (FirstValue JNull) = True"
| "decodable (FirstValue (JObject kvs)) = members_ok kvs"
| "decodable (FirstValue (JBool b)) = False"
| "decodable (FirstValue (JNumber x)) = False"
| "decodable (FirstValue (JString s)) = False"
| "decodable (FirstValue (JArray xs)) = False"

fun mentions :: "quote_field \<Rightarrow> (string \<times> json) list \<Rightarrow> bool" where
  "mentions f [] = False"
| "mentions f ((k, v) # kvs) = (field_of_key k = Some f \<or> mentions f kvs)"

subsection \<open>Concrete quote answers\<close>

text \<open>
  A provider that answers 200 with a given body; a body that begins with
  \<^verbatim>\<open>{"c": "abc"}\<close>; and one that begins with \<^verbatim>\<open>{"h": 189.5, "note": "x"}\<close>, which
  has no price.
\<close>

definition provider_quote :: "read_value \<Rightarrow> url \<Rightarrow> read_value http_result" where
  "provider_quote b u = Response 200 ''200 OK'' b"

definition body_text_price :: read_value where
  "body_text_price = FirstValue (JObject [(''c'', JString ''abc'')])"

definition body_high_only :: read_value where
  "body_high_only =
     FirstValue (JObject [(''h'', JNumber (Some 4640871455075074048)),
                          (''note'', JString ''x'')])"

section \<open>Observations on the streaming handler\<close>

text \<open>
  The symbol of a session (lines 169 to 172); the kinds of events; the error of an event
  that is a failed fetch or a failed write; and the number of fetches and of writes in a
  trace.
\<close>

definition session_symbol :: "url_values \<Rightarrow> string" where
  "session_symbol query = (if Get query ''symbol'' = [] then ''AAPL'' else Get query ''symbol'')"

fun is_fetch :: "ws_event \<Rightarrow> bool" where
  "is_fetch (FetchQuote s r) = True"
| "is_fetch (NewTicker d) = False"
| "is_fetch (SetWriteDeadline t) = False"
| "is_fetch (WriteJSON p r) = False"
| "is_fetch Tick = False"
| "is_fetch (Log m e) = False"
| "is_fetch TickerStop = False"
| "is_fetch ConnClose = False"

fun is_write :: "ws_event \<Rightarrow> bool" where
  "is_write (WriteJSON p r) = True"
| "is_write (NewTicker d) = False"
| "is_write (FetchQuote s r) = False"
| "is_write (SetWriteDeadline t) = False"
| "is_write Tick = False"
| "is_write (Log m e) = False"
| "is_write TickerStop = False"
| "is_write ConnClose = False"

fun failure :: "ws_event \<Rightarrow> error option" where
  "failure (FetchQuote s r) = (case r of Inl e \<Rightarrow> Some e | Inr q \<Rightarrow> None)"
| "failure (WriteJSON p r) = r"
| "failure (NewTicker d) = None"
| "failure (SetWriteDeadline t) = None"
| "failure Tick = None"
| "failure (Log m e) = None"
| "failure TickerStop = None"
| "failure ConnClose = None"

definition fetches :: "ws_event list \<Rightarrow> nat" where
  "fetches tr = length (filter is_fetch tr)"

definition writes :: "ws_event list \<Rightarrow> nat" where
  "writes tr = length (filter is_write tr)"

text \<open>The trace cut at every tick: what precedes the first tick, then what follows each tick.\<close>

fun split_ticks :: "ws_event list \<Rightarrow> ws_event list list" where
  "split_ticks [] = [[]]"
| "split_ticks (e # es) =
     (if e = Tick then [] # split_ticks es
      else (e # hd (split_ticks es)) # tl (split_ticks es))"

text \<open>Before the failure: nothing has failed, and neither deferred call has run.\<close>

definition undisturbed :: "ws_event list \<Rightarrow> bool" where
  "undisturbed tr = (\<forall>x \<in> set tr. failure x = None \<and> x \<noteq> TickerStop \<and> x \<noteq> ConnClose)"

fun is_new_ticker :: "ws_event \<Rightarrow> bool" where
  "is_new_ticker (NewTicker d) = True"
| "is_new_ticker (FetchQuote s r) = False"
| "is_new_ticker (SetWriteDeadline t) = False"
| "is_new_ticker (WriteJSON p r) = False"
| "is_new_ticker Tick = False"
| "is_new_ticker (Log m e) = False"
| "is_new_ticker TickerStop = False"
| "is_new_ticker ConnClose = False"

text \<open>The position of the first event of a kind in a trace (its length when there is none).\<close>

definition first_index :: "(ws_event \<Rightarrow> bool) \<Rightarrow> ws_event list \<Rightarrow> nat" where
  "first_index P tr = length (takeWhile (\<lambda>e. \<not> P e) tr)"

text \<open>
  The events that end a session: a log line, the stop of the ticker, the close of the
  connection.
\<close>

fun is_closing :: "ws_event \<Rightarrow> bool" where
  "is_closing (Log m e) = True"
| "is_closing TickerStop = True"
| "is_closing ConnClose = True"
| "is_closing (NewTicker d) = False"
| "is_closing (FetchQuote s r) = False"
| "is_closing (SetWriteDeadline t) = False"
| "is_closing (WriteJSON p r) = False"
| "is_closing Tick = False"

subsection \<open>Concrete sessions\<close>

text \<open>
  A quote answer with every field 189.5; a provider that cannot be reached; the answers of
  the world to a call of \<^verbatim>\<open>sendQuote\<close> that succeeds, to one whose fetch fails and
  to one whose write fails; and the message of the successful call for AAPL.
\<close>

definition body_quote :: read_value where
  "body_quote =
     FirstValue (JObject [(''c'', JNumber (Some 4640871455075074048)),
                          (''h'', JNumber (Some 4640871455075074048)),
                          (''l'', JNumber (Some 4640871455075074048)),
                          (''o'', JNumber (Some 4640871455075074048)),
                          (''pc'', JNumber (Some 4640871455075074048))])"

definition quote_1895 :: quoteResp where
  "quote_1895 =
     \<lparr>Current = 4640871455075074048, quoteResp.High = 4640871455075074048,
      quoteResp.Low = 4640871455075074048, quoteResp.Open = 4640871455075074048,
      PrevClose = 4640871455075074048\<rparr>"

definition provider_quote_down :: "url \<Rightarrow> read_value http_result" where
  "provider_quote_down u = Failed (TransportError ''dial tcp: i/o timeout'')"

definition io_ok :: call_io where
  "io_ok = \<lparr>provider = provider_quote body_quote, now_payload = 1700000000123456789,
            now_deadline = 1700000000123460000, write_result = None\<rparr>"

definition io_fetch_fails :: call_io where
  "io_fetch_fails = io_ok\<lparr>provider := provider_quote_down\<rparr>"

definition io_write_fails :: call_io where
  "io_write_fails = io_ok\<lparr>write_result := Some (WriteError ''broken pipe'')\<rparr>"

definition payload_AAPL :: object where
  "payload_AAPL = [''symbol'' \<mapsto> AString ''AAPL'', ''price'' \<mapsto> AFloat64 4640871455075074048,
                   ''time'' \<mapsto> AInt64 1700000000123]"

text \<open>
  A later answer of the world: the price 190.25, read five seconds after the first, and
  the message of that call for AAPL.
\<close>

definition body_quote_next :: read_value where
  "body_quote_next = FirstValue (JObject [(''c'', JNumber (Some 4640897843354140672))])"

definition io_next :: call_io where
  "io_next = \<lparr>provider = provider_quote body_quote_next, now_payload = 1700000005123456789,
              now_deadline = 1700000005123460000, write_result = None\<rparr>"

definition payload_AAPL_next :: object where
  "payload_AAPL_next =
     [''symbol'' \<mapsto> AString ''AAPL'', ''price'' \<mapsto> AFloat64 4640897843354140672,
      ''time'' \<mapsto> AInt64 1700000005123]"

definition quote_19025 :: quoteResp where
  "quote_19025 = zero_quoteResp\<lparr>Current := 4640897843354140672\<rparr>"

section \<open>The window of the candle fetch\<close>

lemma wrap64_id:
  assumes "- 9223372036854775808 \<le> x" "x < 9223372036854775808"
  shows "wrap64 x = x"
proof -
  have "signed_take_bit (63::nat) x = x"
    using assms by (intro signed_take_bit_int_eq_self) simp_all
  then show ?thesis by (simp add: wrap64_def sint_sbintrunc')
qed

lemma Unix_Add_minutes: "Unix (Add t (- m * Minute)) = Unix t - 60 * m"
proof -
  have "(t + 1000000000 * (- (60 * m))) div 1000000000 = (- (60 * m)) + t div 1000000000"
    by (rule div_mult_self2) simp
  then show ?thesis by (simp add: Unix_def Add_def Minute_def Second_def)
qed

lemma wrap64_minutes:
  assumes "0 < m" "m \<le> 153722867"
  shows "wrap64 (wrap64 (- m) * Minute) = - m * Minute"
proof -
  have a: "wrap64 (- m) = - m"
    using assms by (intro wrap64_id) linarith+
  have m: "- m * Minute = - (60000000000 * m)" by (simp add: Minute_def Second_def)
  have "wrap64 (- (60000000000 * m)) = - (60000000000 * m)"
    using assms by (intro wrap64_id) linarith+
  then show ?thesis by (simp only: a m)
qed

lemma window_from:
  assumes "0 < m" "m \<le> 153722867"
  shows "Unix (Add t (wrap64 (wrap64 (- m) * Minute))) = Unix t - 60 * m"
  unfolding wrap64_minutes[OF assms] by (rule Unix_Add_minutes)

lemma fetchCandles_url:
  assumes "0 < m" "m \<le> 153722867"
  shows "fst (fetchCandles now_to now_from get symbol m)
           = CandleURL symbol (Unix now_from - 60 * m) (Unix now_to) apiKey"
  using assms window_from[OF assms, of now_from] by (simp add: fetchCandles_def Let_def)

lemma fetchCandles_result:
  "snd (fetchCandles now_to now_from get symbol m) =
     (case get (fst (fetchCandles now_to now_from get symbol m)) of
        Failed err \<Rightarrow> Inl err
      | Response sc st decoded \<Rightarrow>
          if sc < 200 \<or> sc \<ge> 300 then Inl (StatusError (''candle status '' @ st))
          else decoded)"
  by (simp add: fetchCandles_def Let_def)

lemma fetchCandles_default:
  assumes "m \<le> 0"
  shows "fetchCandles now_to now_from get symbol m = fetchCandles now_to now_from get symbol 60"
  using assms by (simp add: fetchCandles_def Let_def)

section \<open>The bars handler\<close>

lemma window_minutes_range: "0 < window_minutes s \<and> window_minutes s \<le> 5000"
  by (simp add: window_minutes_def split: sum.splits)

lemma window_minutes_invalid:
  assumes "s = [] \<or> (\<exists>e. Atoi s = Inl e) \<or> (\<exists>v. Atoi s = Inr v \<and> (v < 1 \<or> 5000 < v))"
  shows "window_minutes s = 60"
  using assms by (auto simp: window_minutes_def)

lemma window_minutes_valid:
  assumes "Atoi s = Inr v" "1 \<le> v" "v \<le> 5000"
  shows "window_minutes s = v"
proof -
  have "s \<noteq> []" using assms(1) by (auto simp: Atoi_def)
  then show ?thesis using assms by (simp add: window_minutes_def)
qed

lemma handleCandles_unfold:
  assumes "Get query ''symbol'' \<noteq> []"
  shows "handleCandles now_to now_from get query =
     (let symbol = Get query ''symbol''; u = requested_url now_to now_from query in
      case get u of
        Failed err \<Rightarrow>
          ([HttpGet u, LogPrintln ''server error:'' err],
           writeJSON 500 [''error'' \<mapsto> AString ''internal_error''])
      | Response sc st decoded \<Rightarrow>
          if sc < 200 \<or> sc \<ge> 300 then
            ([HttpGet u, LogPrintln ''server error:'' (StatusError (''candle status '' @ st))],
             writeJSON 500 [''error'' \<mapsto> AString ''internal_error''])
          else
            (case decoded of
               Inl err \<Rightarrow>
                 ([HttpGet u, LogPrintln ''server error:'' err],
                  writeJSON 500 [''error'' \<mapsto> AString ''internal_error''])
             | Inr c \<Rightarrow>
                 if S c \<noteq> ''ok'' \<or> Time c = [] then
                   ([HttpGet u],
                    writeJSON 200
                      [''symbol'' \<mapsto> AString symbol,
                       ''status'' \<mapsto> AString (S c),
                       ''candles'' \<mapsto> AAnys []])
                 else
                   ([HttpGet u],
                    writeJSON 200
                      [''symbol'' \<mapsto> AString symbol,
                       ''status'' \<mapsto> AString (S c),
                       ''t'' \<mapsto> AInt64s (Time c),
                       ''o'' \<mapsto> AFloat64s (candleResp.Open c),
                       ''h'' \<mapsto> AFloat64s (candleResp.High c),
                       ''l'' \<mapsto> AFloat64s (candleResp.Low c),
                       ''c'' \<mapsto> AFloat64s (Close c),
                       ''v'' \<mapsto> AFloat64s (Volume c)])))"
proof -
  let ?m = "window_minutes (Get query ''minutes'')"
  let ?s = "Get query ''symbol''"
  have m: "0 < ?m" "?m \<le> 153722867" using window_minutes_range[of "Get query ''minutes''"] by auto
  have u: "fst (fetchCandles now_to now_from get ?s ?m) = requested_url now_to now_from query"
    by (simp add: fetchCandles_url[OF m] requested_url_def)
  obtain r where f: "fetchCandles now_to now_from get ?s ?m = (requested_url now_to now_from query, r)"
    using u by (cases "fetchCandles now_to now_from get ?s ?m") simp
  have r: "r = (case get (requested_url now_to now_from query) of
        Failed err \<Rightarrow> Inl err
      | Response sc st decoded \<Rightarrow>
          if sc < 200 \<or> sc \<ge> 300 then Inl (StatusError (''candle status '' @ st))
          else decoded)"
    using fetchCandles_result[of now_to now_from get ?s ?m] by (simp add: f)
  show ?thesis
    using assms
    by (simp add: handleCandles_def Let_def f r serverError_def writeJSON_def writeJSON_def
        split: http_result.splits sum.splits)
qed

lemma handleCandles_calls:
  "upstream_calls (fst (handleCandles now_to now_from get query)) =
     (if Get query ''symbol'' = [] then [] else [requested_url now_to now_from query])"
proof (cases "Get query ''symbol'' = []")
  case True
  then show ?thesis by (simp add: handleCandles_def)
next
  case False
  then show ?thesis
    by (simp add: handleCandles_unfold Let_def split: http_result.splits sum.splits)
qed

lemma Get_empty_iff:
  "Get v k = [] \<longleftrightarrow> v k = None \<or> v k = Some [] \<or> (\<exists>rest. v k = Some ([] # rest))"
  by (auto simp: Get_def split: option.splits list.splits)

lemma Get_query_TSLA [simp]:
  "Get (query_TSLA m) ''symbol'' = ''TSLA''" "Get (query_TSLA m) ''minutes'' = m"
  by (simp_all add: Get_def query_TSLA_def)

text \<open>
  Claim C3. When the \<^verbatim>\<open>minutes\<close> parameter is absent or empty, is not a number for
  \<^verbatim>\<open>Atoi\<close>, or is a number outside 1..5000, the window is 60 minutes: the one request
  the handler makes (when the symbol is present) starts 3600 seconds before the clock
  reading of line 91, and the response is a 200 or a 500, never a 400. When the parameter
  is a number v in 1..5000, the window is v minutes.
\<close>

theorem minutes_default_fallback:
  "((Get query ''minutes'' = [] \<or> (\<exists>e. Atoi (Get query ''minutes'') = Inl e)
       \<or> (\<exists>v. Atoi (Get query ''minutes'') = Inr v \<and> (v < 1 \<or> 5000 < v)))
     \<longrightarrow> window_minutes (Get query ''minutes'') = 60
         \<and> upstream_calls (fst (handleCandles now_to now_from get query)) =
             (if Get query ''symbol'' = [] then []
              else [CandleURL (Get query ''symbol'') (Unix now_from - 60 * 60) (Unix now_to) apiKey])
         \<and> (Get query ''symbol'' \<noteq> [] \<longrightarrow>
               code (snd (handleCandles now_to now_from get query)) = 200
               \<or> code (snd (handleCandles now_to now_from get query)) = 500))
   \<and> (\<forall>v. Atoi (Get query ''minutes'') = Inr v \<and> 1 \<le> v \<and> v \<le> 5000
     \<longrightarrow> window_minutes (Get query ''minutes'') = v
         \<and> upstream_calls (fst (handleCandles now_to now_from get query)) =
             (if Get query ''symbol'' = [] then []
              else [CandleURL (Get query ''symbol'') (Unix now_from - 60 * v) (Unix now_to) apiKey]))"
proof (intro conjI impI allI)
  assume inv: "Get query ''minutes'' = [] \<or> (\<exists>e. Atoi (Get query ''minutes'') = Inl e)
       \<or> (\<exists>v. Atoi (Get query ''minutes'') = Inr v \<and> (v < 1 \<or> 5000 < v))"
  then show w: "window_minutes (Get query ''minutes'') = 60"
    by (rule window_minutes_invalid)
  show "upstream_calls (fst (handleCandles now_to now_from get query)) =
             (if Get query ''symbol'' = [] then []
              else [CandleURL (Get query ''symbol'') (Unix now_from - 60 * 60) (Unix now_to) apiKey])"
    by (simp add: handleCandles_calls requested_url_def w)
next
  assume "Get query ''symbol'' \<noteq> []"
  then show "code (snd (handleCandles now_to now_from get query)) = 200
               \<or> code (snd (handleCandles now_to now_from get query)) = 500"
    by (simp add: handleCandles_unfold Let_def writeJSON_def split: http_result.splits sum.splits)
next
  fix v assume v: "Atoi (Get query ''minutes'') = Inr v \<and> 1 \<le> v \<and> v \<le> 5000"
  then show w: "window_minutes (Get query ''minutes'') = v"
    by (simp add: window_minutes_valid)
  show "upstream_calls (fst (handleCandles now_to now_from get query)) =
             (if Get query ''symbol'' = [] then []
              else [CandleURL (Get query ''symbol'') (Unix now_from - 60 * v) (Unix now_to) apiKey])"
    by (simp add: handleCandles_calls requested_url_def w)
qed

lemma Atoi_abc:
  "Atoi ''abc'' = Inl NumError"
  by (simp add: Atoi_def is_digit_def)
lemma Atoi_30:
  "Atoi ''30'' = Inr 30"
  by (simp add: Atoi_def is_digit_def)
lemma Atoi_5001:
  "Atoi ''5001'' = Inr 5001"
  by (simp add: Atoi_def is_digit_def)

text \<open>
  The fallback at \<^verbatim>\<open>minutes=abc\<close> and \<^verbatim>\<open>minutes=5001\<close>, and the value taken at
  \<^verbatim>\<open>minutes=30\<close>.
\<close>

theorem minutes_default_fallback_witness:
  "upstream_calls (fst (handleCandles 1700000000123456789 1700000000123460000
       (provider_candles candles_ok) (query_TSLA ''abc''))) =
     [CandleURL ''TSLA'' 1699996400 1700000000 apiKey]
   \<and> upstream_calls (fst (handleCandles 1700000000123456789 1700000000123460000
       (provider_candles candles_ok) (query_TSLA ''5001''))) =
     [CandleURL ''TSLA'' 1699996400 1700000000 apiKey]
   \<and> upstream_calls (fst (handleCandles 1700000000123456789 1700000000123460000
       (provider_candles candles_ok) (query_TSLA ''30''))) =
     [CandleURL ''TSLA'' 1699998200 1700000000 apiKey]"
  using minutes_default_fallback [where query = "query_TSLA ''abc''"
          and now_to = 1700000000123456789 and now_from = 1700000000123460000
          and get = "provider_candles candles_ok"]
        minutes_default_fallback [where query = "query_TSLA ''5001''"
          and now_to = 1700000000123456789 and now_from = 1700000000123460000
          and get = "provider_candles candles_ok"]
        minutes_default_fallback [where query = "query_TSLA ''30''"
          and now_to = 1700000000123456789 and now_from = 1700000000123460000
          and get = "provider_candles candles_ok"]
  by (simp add: Atoi_abc Atoi_30 Atoi_5001 Unix_def)

text \<open>
  Claim C4. When the \<^verbatim>\<open>symbol\<close> parameter is absent or empty, the handler answers
  400 with the body \<^verbatim>\<open>{"error": "symbol is required"}\<close> and does nothing else: no
  request goes to the provider.
\<close>

theorem symbol_required:
  assumes "query ''symbol'' = None \<or> query ''symbol'' = Some []
             \<or> (\<exists>rest. query ''symbol'' = Some ([] # rest))"
  shows "handleCandles now_to now_from get query =
           ([], \<lparr>code = 400, content_type = ''application/json'',
                  body = [''error'' \<mapsto> AString ''symbol is required'']\<rparr>)
         \<and> upstream_calls (fst (handleCandles now_to now_from get query)) = []"
proof -
  have "Get query ''symbol'' = []" using assms by (simp add: Get_empty_iff)
  then show ?thesis by (simp add: handleCandles_def badRequest_def writeJSON_def)
qed

text \<open>
  A request without \<^verbatim>\<open>symbol\<close>, and one with \<^verbatim>\<open>symbol=\<close>.
\<close>

theorem symbol_required_witness:
  "handleCandles 1700000000123456789 1700000000123460000 (provider_candles candles_ok)
       [''minutes'' \<mapsto> [''30'']] =
     ([], \<lparr>code = 400, content_type = ''application/json'',
            body = [''error'' \<mapsto> AString ''symbol is required'']\<rparr>)
   \<and> handleCandles 1700000000123456789 1700000000123460000 (provider_candles candles_ok)
       [''symbol'' \<mapsto> [[]]] =
     ([], \<lparr>code = 400, content_type = ''application/json'',
            body = [''error'' \<mapsto> AString ''symbol is required'']\<rparr>)"
  using symbol_required [where query = "[''minutes'' \<mapsto> [''30'']]"
          and now_to = 1700000000123456789 and now_from = 1700000000123460000
          and get = "provider_candles candles_ok"]
        symbol_required [where query = "[''symbol'' \<mapsto> [[]]]"
          and now_to = 1700000000123456789 and now_from = 1700000000123460000
          and get = "provider_candles candles_ok"]
  by simp

lemma calls_nonempty:
  assumes "upstream_calls (fst (handleCandles now_to now_from get query)) = [u]"
  shows "Get query ''symbol'' \<noteq> [] \<and> u = requested_url now_to now_from query"
  using assms by (simp add: handleCandles_calls split: if_splits)


lemma requested_TSLA_30:
  "requested_url 1700000000123456789 1700000000123460000 (query_TSLA ''30'') =
     CandleURL ''TSLA'' 1699998200 1700000000 apiKey"
  by (simp add: requested_url_def window_minutes_valid[OF Atoi_30] Unix_def)

lemma calls_TSLA_30:
  "upstream_calls (fst (handleCandles 1700000000123456789 1700000000123460000 get
       (query_TSLA ''30''))) = [CandleURL ''TSLA'' 1699998200 1700000000 apiKey]"
  by (simp add: handleCandles_calls requested_TSLA_30)


text \<open>
  Claim C7. When the candle fetch fails (the GET fails, the status is not 2xx, or the body
  does not decode), the handler logs the error and answers 500 with the fixed body
  \<^verbatim>\<open>{"error": "internal_error"}\<close>, which does not depend on the error.
\<close>

theorem upstream_failure_is_opaque_500:
  assumes "upstream_calls (fst (handleCandles now_to now_from get query)) = [u]"
    and "get u = Failed err
         \<or> (\<exists>sc st d. get u = Response sc st d \<and> (sc < 200 \<or> 300 \<le> sc)
               \<and> err = StatusError (''candle status '' @ st))
         \<or> (\<exists>sc st. get u = Response sc st (Inl err) \<and> 200 \<le> sc \<and> sc < 300)"
  shows "handleCandles now_to now_from get query =
           ([HttpGet u, LogPrintln ''server error:'' err],
            \<lparr>code = 500, content_type = ''application/json'',
             body = [''error'' \<mapsto> AString ''internal_error'']\<rparr>)"
proof -
  have s: "Get query ''symbol'' \<noteq> []" and u: "requested_url now_to now_from query = u"
    using calls_nonempty[OF assms(1)] by simp_all
  from assms(2) show ?thesis
    by (elim disjE exE conjE) (simp_all add: handleCandles_unfold[OF s] Let_def u writeJSON_def)
qed

text \<open>
  A provider that cannot be reached, and one that answers 429.
\<close>

theorem upstream_failure_is_opaque_500_witness:
  "handleCandles 1700000000123456789 1700000000123460000 provider_down (query_TSLA ''30'') =
     ([HttpGet (CandleURL ''TSLA'' 1699998200 1700000000 apiKey),
       LogPrintln ''server error:'' (TransportError ''dial tcp: i/o timeout'')],
      \<lparr>code = 500, content_type = ''application/json'',
       body = [''error'' \<mapsto> AString ''internal_error'']\<rparr>)
   \<and> handleCandles 1700000000123456789 1700000000123460000 provider_429 (query_TSLA ''30'') =
     ([HttpGet (CandleURL ''TSLA'' 1699998200 1700000000 apiKey),
       LogPrintln ''server error:'' (StatusError ''candle status 429 Too Many Requests'')],
      \<lparr>code = 500, content_type = ''application/json'',
       body = [''error'' \<mapsto> AString ''internal_error'']\<rparr>)"
  using upstream_failure_is_opaque_500 [where get = provider_down
          and err = "TransportError ''dial tcp: i/o timeout''", OF calls_TSLA_30]
        upstream_failure_is_opaque_500 [where get = provider_429
          and err = "StatusError ''candle status 429 Too Many Requests''", OF calls_TSLA_30]
  by (simp add: provider_down_def provider_429_def)




text \<open>
  Claim C8 at a failing input. The clock is read twice, at line 90 for \<^verbatim>\<open>to\<close> and at
  line 91 for \<^verbatim>\<open>from\<close>. With the first reading one nanosecond before a full second
  and the second reading on it, the window asked for with 60 minutes spans 3599 seconds,
  not 3600.
\<close>

theorem window_straddles_a_second:
  "fst (fetchCandles 1700000000999999999 1700000001000000000 provider_down ''TSLA'' 60) =
     CandleURL ''TSLA'' 1699996401 1700000000 apiKey
   \<and> window_seconds
       (fst (fetchCandles 1700000000999999999 1700000001000000000 provider_down ''TSLA'' 60))
     = 3599"
  by (simp add: fetchCandles_url Unix_def)

text \<open>
  When both readings fall in the same second, and the minutes are few enough for the
  duration of line 91 not to overflow, the window spans 60 seconds for each minute.
\<close>

lemma window_within_one_second:
  assumes "0 < m" "m \<le> 153722867" "Unix now_to = Unix now_from"
  shows "window_seconds (fst (fetchCandles now_to now_from get symbol m)) = 60 * m"
  using assms by (simp add: fetchCandles_url)

section \<open>Decoding a quote\<close>

lemma store_ok: "snd (store_float64 v old) = None \<longleftrightarrow> storable v"
  by (cases v) (auto split: option.splits)

lemma saved_stays: "snd (decode_members kvs q (Some e)) = Some e"
  by (induction kvs arbitrary: q) (auto split: option.splits prod.splits)

lemma decode_members_ok: "snd (decode_members kvs q None) = None \<longleftrightarrow> members_ok kvs"
proof (induction kvs arbitrary: q)
  case Nil
  show ?case by simp
next
  case (Cons kv kvs)
  obtain k v where kv: "kv = (k, v)" by (cases kv)
  show ?case
  proof (cases "field_of_key k")
    case None
    then show ?thesis by (simp add: kv Cons.IH)
  next
    case (Some f)
    obtain x e where st: "store_float64 v (get_field f q) = (x, e)"
      by (cases "store_float64 v (get_field f q)")
    have e: "e = None \<longleftrightarrow> storable v" using store_ok[of v "get_field f q"] st by simp
    show ?thesis
    proof (cases e)
      case None
      then show ?thesis using e by (simp add: kv Some st Cons.IH)
    next
      case (Some err)
      then show ?thesis using e by (simp add: kv \<open>field_of_key k = Some f\<close> st saved_stays)
    qed
  qed
qed

lemma decode_members_error:
  "snd (decode_members kvs q None) = None \<or> snd (decode_members kvs q None) = Some UnmarshalTypeError"
proof (induction kvs arbitrary: q)
  case Nil
  show ?case by simp
next
  case (Cons kv kvs)
  obtain k v where kv: "kv = (k, v)" by (cases kv)
  show ?case
  proof (cases "field_of_key k")
    case None
    then show ?thesis using Cons.IH by (simp add: kv)
  next
    case (Some f)
    obtain x e where st: "store_float64 v (get_field f q) = (x, e)"
      by (cases "store_float64 v (get_field f q)")
    have e: "e = None \<or> e = Some UnmarshalTypeError"
      using st by (cases v) (auto split: option.splits)
    then show ?thesis
    proof
      assume "e = None"
      then show ?thesis using Cons.IH by (simp add: kv Some st)
    next
      assume "e = Some UnmarshalTypeError"
      then show ?thesis by (simp add: kv Some st saved_stays)
    qed
  qed
qed

lemma get_set_other: "f \<noteq> g \<Longrightarrow> get_field f (set_field g x q) = get_field f q"
  by (cases f; cases g) simp_all

lemma absent_field_kept:
  "\<not> mentions f kvs \<Longrightarrow> get_field f (fst (decode_members kvs q e)) = get_field f q"
proof (induction kvs arbitrary: q e)
  case Nil
  show ?case by simp
next
  case (Cons kv kvs)
  obtain k v where kv: "kv = (k, v)" by (cases kv)
  from Cons.prems have nf: "field_of_key k \<noteq> Some f" and rest: "\<not> mentions f kvs"
    by (simp_all add: kv)
  show ?case
  proof (cases "field_of_key k")
    case None
    then show ?thesis using Cons.IH[OF rest] by (simp add: kv)
  next
    case (Some g)
    then have "f \<noteq> g" using nf by auto
    then show ?thesis
      using Cons.IH[OF rest] by (simp add: kv Some get_set_other split: prod.splits)
  qed
qed

lemma get_field_zero: "get_field f zero_quoteResp = 0"
  by (cases f) (simp_all add: zero_quoteResp_def)

lemma decode_quoteResp_ok: "(\<exists>q. decode_quoteResp b = Inr q) \<longleftrightarrow> decodable b"
proof (cases b)
  case (ReadError e)
  then show ?thesis by (simp add: decode_quoteResp_def)
next
  case (FirstValue j)
  show ?thesis
  proof (cases j)
    case (JObject kvs)
    obtain q e where d: "decode_members kvs zero_quoteResp None = (q, e)"
      by (cases "decode_members kvs zero_quoteResp None")
    have "e = None \<longleftrightarrow> members_ok kvs"
      using decode_members_ok[of kvs zero_quoteResp] d by simp
    then show ?thesis by (cases e) (simp_all add: FirstValue JObject decode_quoteResp_def d)
  qed (simp_all add: FirstValue decode_quoteResp_def)
qed

lemma decode_quoteResp_error:
  assumes "decode_quoteResp b = Inl e"
  shows "e = (case b of ReadError r \<Rightarrow> r | FirstValue j \<Rightarrow> UnmarshalTypeError)"
proof (cases b)
  case (ReadError r)
  then show ?thesis using assms by (simp add: decode_quoteResp_def)
next
  case (FirstValue j)
  show ?thesis
  proof (cases j)
    case (JObject kvs)
    obtain q e' where d: "decode_members kvs zero_quoteResp None = (q, e')"
      by (cases "decode_members kvs zero_quoteResp None")
    have "e' = None \<or> e' = Some UnmarshalTypeError"
      using decode_members_error[of kvs zero_quoteResp] d by simp
    then show ?thesis using assms by (auto simp: FirstValue JObject decode_quoteResp_def d)
  qed (use assms in \<open>simp_all add: FirstValue decode_quoteResp_def\<close>)
qed

lemma decode_quoteResp_absent:
  assumes "decode_quoteResp (FirstValue (JObject kvs)) = Inr q" "\<not> mentions f kvs"
  shows "get_field f q = 0"
proof -
  obtain q' e where d: "decode_members kvs zero_quoteResp None = (q', e)"
    by (cases "decode_members kvs zero_quoteResp None")
  have "q' = q" using assms(1) by (cases e) (simp_all add: decode_quoteResp_def d)
  then show ?thesis
    using absent_field_kept[OF assms(2), of zero_quoteResp None] d by (simp add: get_field_zero)
qed

lemma fetchQuote_2xx:
  assumes "get (QuoteURL symbol apiKey) = Response sc st b" "200 \<le> sc" "sc < 300"
  shows "fetchQuote get symbol = decode_quoteResp b"
  using assms by (simp add: fetchQuote_def)

text \<open>
  Claim C10, as amended. On a 2xx response, let \<open>b\<close> be what \<^verbatim>\<open>Decode\<close> reads from the
  body: the first JSON value of the body (what follows it is not read, so it may be
  anything), or a read error. The quote fetch succeeds exactly when \<open>b\<close> is a value and
  that value is \<^verbatim>\<open>null\<close> or an object in which every member named c, h, l, o or pc (in
  any letter case) holds \<^verbatim>\<open>null\<close> or a number in the range of a \<^verbatim>\<open>float64\<close>. A field
  that no member names is 0 in the result, so the empty object gives the quote with all
  fields 0. Otherwise the fetch fails: with the read error when the body does not begin
  with a well-formed value (a syntax error, \<^verbatim>\<open>io.EOF\<close> on an empty body,
  \<^verbatim>\<open>io.ErrUnexpectedEOF\<close> on a truncated one), and with a type error when the first
  value is well-formed and of another shape.
\<close>

theorem quote_decoding:
  assumes "get (QuoteURL symbol apiKey) = Response sc st b" and "200 \<le> sc" and "sc < 300"
  shows "((\<exists>q. fetchQuote get symbol = Inr q) \<longleftrightarrow> decodable b)
       \<and> (\<forall>e. fetchQuote get symbol = Inl e \<longrightarrow>
             e = (case b of ReadError r \<Rightarrow> r | FirstValue j \<Rightarrow> UnmarshalTypeError))
       \<and> (\<forall>r. b = ReadError r \<longrightarrow> fetchQuote get symbol = Inl r)
       \<and> (\<forall>kvs q f. b = FirstValue (JObject kvs) \<and> fetchQuote get symbol = Inr q
             \<and> \<not> mentions f kvs \<longrightarrow> get_field f q = 0)
       \<and> (b = FirstValue (JObject []) \<longrightarrow> fetchQuote get symbol = Inr zero_quoteResp)"
  unfolding fetchQuote_2xx[where get = get, OF assms]
proof (intro conjI allI impI)
  show "(\<exists>q. decode_quoteResp b = Inr q) \<longleftrightarrow> decodable b" by (rule decode_quoteResp_ok)
next
  fix e assume "decode_quoteResp b = Inl e"
  then show "e = (case b of ReadError r \<Rightarrow> r | FirstValue j \<Rightarrow> UnmarshalTypeError)"
    by (rule decode_quoteResp_error)
next
  fix r assume "b = ReadError r"
  then show "decode_quoteResp b = Inl r" by (simp add: decode_quoteResp_def)
next
  fix kvs q f
  assume "b = FirstValue (JObject kvs) \<and> decode_quoteResp b = Inr q \<and> \<not> mentions f kvs"
  then have "decode_quoteResp (FirstValue (JObject kvs)) = Inr q" "\<not> mentions f kvs" by auto
  then show "get_field f q = 0" by (rule decode_quoteResp_absent)
next
  assume "b = FirstValue (JObject [])"
  then show "decode_quoteResp b = Inr zero_quoteResp" by (simp add: decode_quoteResp_def)
qed

text \<open>
  A body that begins with \<^verbatim>\<open>{"h": 189.5, "note": "x"}\<close> decodes to a quote with price
  0, one that begins with the empty object to the quote with all fields 0, and on an
  empty body the fetch fails with \<^verbatim>\<open>io.EOF\<close>.
\<close>

theorem quote_decoding_witness:
  "(\<exists>q. fetchQuote (provider_quote body_high_only) ''AAPL'' = Inr q \<and> Current q = 0)
   \<and> fetchQuote (provider_quote (FirstValue (JObject []))) ''AAPL'' = Inr zero_quoteResp
   \<and> Current zero_quoteResp = 0
   \<and> fetchQuote (provider_quote (ReadError EOF)) ''AAPL'' = Inl EOF"
proof -
  have g: "provider_quote c (QuoteURL ''AAPL'' apiKey) = Response 200 ''200 OK'' c" for c
    by (simp add: provider_quote_def)
  note h = quote_decoding [where get = "provider_quote body_high_only", OF g]
  note e = quote_decoding [where get = "provider_quote (FirstValue (JObject []))", OF g]
  note r = quote_decoding [where get = "provider_quote (ReadError EOF)", OF g]
  have d: "decodable body_high_only"
    by (simp add: body_high_only_def field_of_key_def)
  then obtain q where q: "fetchQuote (provider_quote body_high_only) ''AAPL'' = Inr q"
    using h by auto
  have "\<not> mentions FCurrent [(''h'', JNumber (Some 4640871455075074048)), (''note'', JString ''x'')]"
    by (simp add: field_of_key_def)
  then have "get_field FCurrent q = 0"
    using h q by (auto simp: body_high_only_def)
  moreover have "fetchQuote (provider_quote (ReadError EOF)) ''AAPL'' = Inl EOF"
    using r by simp
  ultimately show ?thesis using q e by (auto simp: zero_quoteResp_def)
qed

text \<open>
  Claim C10 as stated fails: the body \<^verbatim>\<open>{"c": "abc"}\<close>, with nothing after it, is
  syntactically valid JSON, and the fetch fails on it with a type error.
\<close>

theorem text_price_counterexample:
  "fetchQuote (provider_quote body_text_price) ''AAPL'' = Inl UnmarshalTypeError"
  by (simp add: fetchQuote_def provider_quote_def body_text_price_def decode_quoteResp_def
      field_of_key_def)

section \<open>The streaming session\<close>

subsection \<open>Concrete runs\<close>

lemma fetch_body_quote: "fetchQuote (provider_quote body_quote) s = Inr quote_1895"
  by (simp add: fetchQuote_def provider_quote_def body_quote_def decode_quoteResp_def
      field_of_key_def zero_quoteResp_def quote_1895_def)

lemma sendQuote_io_ok:
  "sendQuote ''AAPL'' io_ok =
     ([FetchQuote ''AAPL'' (Inr quote_1895), SetWriteDeadline 1700000005123460000,
       WriteJSON payload_AAPL None], None)"
  by (simp add: sendQuote_def io_ok_def fetch_body_quote Let_def quote_1895_def UnixMilli_def
      Add_def Second_def payload_AAPL_def)

lemma sendQuote_io_write_fails:
  "sendQuote ''AAPL'' io_write_fails =
     ([FetchQuote ''AAPL'' (Inr quote_1895), SetWriteDeadline 1700000005123460000,
       WriteJSON payload_AAPL (Some (WriteError ''broken pipe''))],
      Some (WriteError ''broken pipe''))"
  by (simp add: sendQuote_def io_write_fails_def io_ok_def fetch_body_quote Let_def quote_1895_def
      UnixMilli_def Add_def Second_def payload_AAPL_def)

lemma sendQuote_io_fetch_fails:
  "sendQuote ''AAPL'' io_fetch_fails =
     ([FetchQuote ''AAPL'' (Inl (TransportError ''dial tcp: i/o timeout''))],
      Some (TransportError ''dial tcp: i/o timeout''))"
  by (simp add: sendQuote_def io_fetch_fails_def io_ok_def fetchQuote_def provider_quote_down_def)

lemma sendQuote_io_next:
  "sendQuote ''AAPL'' io_next =
     ([FetchQuote ''AAPL'' (Inr quote_19025), SetWriteDeadline 1700000010123460000,
       WriteJSON payload_AAPL_next None], None)"
  by (simp add: sendQuote_def io_next_def fetchQuote_def provider_quote_def body_quote_next_def
      decode_quoteResp_def field_of_key_def Let_def quote_19025_def zero_quoteResp_def
      UnixMilli_def Add_def Second_def payload_AAPL_next_def)

lemma session_symbol_empty [simp]: "session_symbol Map.empty = ''AAPL''"
  by (simp add: session_symbol_def Get_def)

lemma handleWS_run_write_fails:
  "handleWS Map.empty None io_ok [io_ok, io_write_fails, io_ok] =
     ([NewTicker 5000000000,
       FetchQuote ''AAPL'' (Inr quote_1895), SetWriteDeadline 1700000005123460000,
       WriteJSON payload_AAPL None,
       Tick,
       FetchQuote ''AAPL'' (Inr quote_1895), SetWriteDeadline 1700000005123460000,
       WriteJSON payload_AAPL None,
       Tick,
       FetchQuote ''AAPL'' (Inr quote_1895), SetWriteDeadline 1700000005123460000,
       WriteJSON payload_AAPL (Some (WriteError ''broken pipe'')),
       Log ''ws send:'' (WriteError ''broken pipe''), TickerStop, ConnClose], Returned)"
  by (simp add: handleWS_def Let_def Get_def sendQuote_io_ok sendQuote_io_write_fails deferred_def
      livePollInterval_def Second_def)

lemma handleWS_run_first_fails:
  "handleWS Map.empty None io_fetch_fails [io_ok] =
     ([NewTicker 5000000000,
       FetchQuote ''AAPL'' (Inl (TransportError ''dial tcp: i/o timeout'')),
       Log ''ws first send:'' (TransportError ''dial tcp: i/o timeout''),
       TickerStop, ConnClose], Returned)"
  by (simp add: handleWS_def Let_def Get_def sendQuote_io_fetch_fails deferred_def
      livePollInterval_def Second_def)

lemma handleWS_run_two_quotes:
  "handleWS Map.empty None io_ok [io_next, io_fetch_fails, io_ok] =
     ([NewTicker 5000000000,
       FetchQuote ''AAPL'' (Inr quote_1895), SetWriteDeadline 1700000005123460000,
       WriteJSON payload_AAPL None,
       Tick,
       FetchQuote ''AAPL'' (Inr quote_19025), SetWriteDeadline 1700000010123460000,
       WriteJSON payload_AAPL_next None,
       Tick,
       FetchQuote ''AAPL'' (Inl (TransportError ''dial tcp: i/o timeout'')),
       Log ''ws send:'' (TransportError ''dial tcp: i/o timeout''), TickerStop, ConnClose],
      Returned)"
  by (simp add: handleWS_def Let_def Get_def sendQuote_io_ok sendQuote_io_next
      sendQuote_io_fetch_fails deferred_def livePollInterval_def Second_def)

lemma split_run_two_quotes:
  "split_ticks (fst (handleWS Map.empty None io_ok [io_next, io_fetch_fails, io_ok])) =
     [[NewTicker 5000000000,
       FetchQuote ''AAPL'' (Inr quote_1895), SetWriteDeadline 1700000005123460000,
       WriteJSON payload_AAPL None],
      [FetchQuote ''AAPL'' (Inr quote_19025), SetWriteDeadline 1700000010123460000,
       WriteJSON payload_AAPL_next None],
      [FetchQuote ''AAPL'' (Inl (TransportError ''dial tcp: i/o timeout'')),
       Log ''ws send:'' (TransportError ''dial tcp: i/o timeout''), TickerStop, ConnClose]]"
  by (simp add: handleWS_run_two_quotes)

subsection \<open>Failure ends the session\<close>

lemma undisturbed_simps [simp]:
  "undisturbed []"
  "undisturbed (x # xs) \<longleftrightarrow> failure x = None \<and> x \<noteq> TickerStop \<and> x \<noteq> ConnClose \<and> undisturbed xs"
  "undisturbed (xs @ ys) \<longleftrightarrow> undisturbed xs \<and> undisturbed ys"
  by (auto simp: undisturbed_def)

lemma sendQuote_ok:
  assumes "snd (sendQuote symbol io) = None"
  shows "undisturbed (fst (sendQuote symbol io))"
  using assms by (auto simp: sendQuote_def Let_def split: sum.splits)

lemma sendQuote_failed:
  assumes "snd (sendQuote symbol io) = Some err"
  shows "\<exists>pre e. fst (sendQuote symbol io) = pre @ [e] \<and> failure e = Some err \<and> undisturbed pre"
proof (cases "fetchQuote (provider io) symbol")
  case (Inl e)
  then have "fst (sendQuote symbol io) = [] @ [FetchQuote symbol (Inl err)]"
    using assms by (simp add: sendQuote_def)
  then show ?thesis by (intro exI[of _ "[]"] exI[of _ "FetchQuote symbol (Inl err)"]) simp
next
  case (Inr q)
  let ?p = "[''symbol'' \<mapsto> AString symbol, ''price'' \<mapsto> AFloat64 (Current q),
             ''time'' \<mapsto> AInt64 (UnixMilli (now_payload io))]"
  let ?pre = "[FetchQuote symbol (Inr q), SetWriteDeadline (Add (now_deadline io) (5 * Second))]"
  have w: "write_result io = Some err" using assms Inr by (simp add: sendQuote_def Let_def)
  have "fst (sendQuote symbol io) = ?pre @ [WriteJSON ?p (Some err)]"
    using Inr w by (simp add: sendQuote_def Let_def)
  moreover have "failure (WriteJSON ?p (Some err)) = Some err" by simp
  moreover have "undisturbed ?pre" by simp
  ultimately show ?thesis by blast
qed

lemma sendQuote_fails_iff:
  "snd (sendQuote symbol io) \<noteq> None \<longleftrightarrow>
     (\<exists>e. fetchQuote (provider io) symbol = Inl e) \<or> write_result io \<noteq> None"
  by (auto simp: sendQuote_def Let_def split: sum.splits)

lemma loop_all_ok:
  assumes "\<forall>io \<in> set ios. snd (sendQuote symbol io) = None"
  shows "snd (ticker_loop symbol ios) = Waiting \<and> undisturbed (fst (ticker_loop symbol ios))"
  using assms
proof (induction ios)
  case Nil
  show ?case by simp
next
  case (Cons io ios)
  obtain evs where s: "sendQuote symbol io = (evs, None)"
    using Cons.prems by (cases "sendQuote symbol io") auto
  have u: "undisturbed evs" using sendQuote_ok[of symbol io] s by simp
  obtain rest out where l: "ticker_loop symbol ios = (rest, out)"
    by (cases "ticker_loop symbol ios")
  have "out = Waiting \<and> undisturbed rest" using Cons.IH Cons.prems l by simp
  then show ?case by (simp add: s l u)
qed

lemma loop_some_failure:
  assumes "\<exists>io \<in> set ios. snd (sendQuote symbol io) \<noteq> None"
  shows "snd (ticker_loop symbol ios) = Returned \<and>
         (\<exists>pre e err. fst (ticker_loop symbol ios) = pre @ [e, Log ''ws send:'' err]
            \<and> failure e = Some err \<and> undisturbed pre)"
  using assms
proof (induction ios)
  case Nil
  then show ?case by simp
next
  case (Cons io ios)
  obtain evs r where s: "sendQuote symbol io = (evs, r)" by (cases "sendQuote symbol io")
  show ?case
  proof (cases r)
    case (Some err)
    obtain pre e where p: "evs = pre @ [e]" "failure e = Some err" "undisturbed pre"
      using sendQuote_failed[of symbol io err] s Some by auto
    have "fst (ticker_loop symbol (io # ios)) = (Tick # pre) @ [e, Log ''ws send:'' err]"
      by (simp add: s Some p)
    moreover have "undisturbed (Tick # pre)" using p by simp
    ultimately show ?thesis using p(2) by (auto simp: s Some)
  next
    case None
    then have "\<exists>io \<in> set ios. snd (sendQuote symbol io) \<noteq> None"
      using Cons.prems s by auto
    from Cons.IH[OF this] obtain pre e err where
      r: "snd (ticker_loop symbol ios) = Returned"
      and t: "fst (ticker_loop symbol ios) = pre @ [e, Log ''ws send:'' err]"
      and f: "failure e = Some err" and u: "undisturbed pre"
      by auto
    have ue: "undisturbed evs" using sendQuote_ok[of symbol io] s None by simp
    obtain rest out where l: "ticker_loop symbol ios = (rest, out)"
      by (cases "ticker_loop symbol ios")
    have "fst (ticker_loop symbol (io # ios)) = (Tick # evs @ pre) @ [e, Log ''ws send:'' err]"
      using t l by (simp add: s None)
    moreover have "undisturbed (Tick # evs @ pre)" using ue u by simp
    moreover have "snd (ticker_loop symbol (io # ios)) = Returned"
      using r l by (simp add: s None)
    ultimately show ?thesis using f by blast
  qed
qed

lemma handleWS_failure:
  assumes "\<exists>io \<in> set (first # ticks). snd (sendQuote (session_symbol query) io) \<noteq> None"
  shows "snd (handleWS query None first ticks) = Returned \<and>
         (\<exists>pre e m err. fst (handleWS query None first ticks)
              = pre @ [e, Log m err, TickerStop, ConnClose]
            \<and> failure e = Some err \<and> undisturbed pre)"
proof -
  let ?s = "session_symbol query"
  obtain evs r where s: "sendQuote ?s first = (evs, r)" by (cases "sendQuote ?s first")
  show ?thesis
  proof (cases r)
    case (Some err)
    obtain pre e where p: "evs = pre @ [e]" "failure e = Some err" "undisturbed pre"
      using sendQuote_failed[of ?s first err] s Some by auto
    have "fst (handleWS query None first ticks)
            = (NewTicker livePollInterval # pre) @ [e, Log ''ws first send:'' err, TickerStop, ConnClose]"
      using s Some p by (simp add: handleWS_def session_symbol_def deferred_def)
    moreover have "undisturbed (NewTicker livePollInterval # pre)" using p by simp
    moreover have "snd (handleWS query None first ticks) = Returned"
      using s Some by (simp add: handleWS_def session_symbol_def)
    ultimately show ?thesis using p(2) by blast
  next
    case None
    then have "\<exists>io \<in> set ticks. snd (sendQuote ?s io) \<noteq> None"
      using assms s by auto
    from loop_some_failure[OF this] obtain pre e err where
      r: "snd (ticker_loop ?s ticks) = Returned"
      and t: "fst (ticker_loop ?s ticks) = pre @ [e, Log ''ws send:'' err]"
      and f: "failure e = Some err" and u: "undisturbed pre"
      by auto
    have ue: "undisturbed evs" using sendQuote_ok[of ?s first] s None by simp
    obtain rest where l: "ticker_loop ?s ticks = (rest, Returned)"
      using r by (cases "ticker_loop ?s ticks") simp
    have "fst (handleWS query None first ticks)
            = (NewTicker livePollInterval # evs @ pre) @ [e, Log ''ws send:'' err, TickerStop, ConnClose]"
      using s None l t by (simp add: handleWS_def session_symbol_def deferred_def)
    moreover have "undisturbed (NewTicker livePollInterval # evs @ pre)" using ue u by simp
    moreover have "snd (handleWS query None first ticks) = Returned"
      using s None l by (simp add: handleWS_def session_symbol_def)
    ultimately show ?thesis using f by blast
  qed
qed

lemma count_undisturbed:
  "undisturbed tr \<Longrightarrow> count_list tr ConnClose = 0 \<and> count_list tr TickerStop = 0"
  by (induction tr) auto

lemma failure_not_deferred: "failure e = Some err \<Longrightarrow> e \<noteq> ConnClose \<and> e \<noteq> TickerStop"
  by (cases e) auto

text \<open>
  Claim C2. In a session whose upgrade succeeded, when some call of \<^verbatim>\<open>sendQuote\<close>
  fails (the first one or a later one, by its fetch or by its write), the handler returns,
  and its trace ends with the failed event, one log line carrying that error, the stop of
  the ticker and the close of the connection. Before the failed event nothing failed and
  neither the ticker was stopped nor the connection closed; so the connection is closed
  exactly once, the ticker stopped exactly once, and after the failure nothing is fetched
  or written.
\<close>

theorem failure_closes_session:
  assumes "\<exists>io \<in> set (first # ticks).
             (\<exists>e. fetchQuote (provider io) (session_symbol query) = Inl e)
             \<or> write_result io \<noteq> None"
  shows "snd (handleWS query None first ticks) = Returned
       \<and> (\<exists>pre e m err.
             fst (handleWS query None first ticks) = pre @ [e, Log m err, TickerStop, ConnClose]
             \<and> failure e = Some err \<and> undisturbed pre)
       \<and> count_list (fst (handleWS query None first ticks)) ConnClose = 1
       \<and> count_list (fst (handleWS query None first ticks)) TickerStop = 1"
proof -
  have "\<exists>io \<in> set (first # ticks). snd (sendQuote (session_symbol query) io) \<noteq> None"
    using assms by (simp only: sendQuote_fails_iff)
  from handleWS_failure[OF this] obtain pre e m err where
    r: "snd (handleWS query None first ticks) = Returned"
    and t: "fst (handleWS query None first ticks) = pre @ [e, Log m err, TickerStop, ConnClose]"
    and f: "failure e = Some err" and u: "undisturbed pre"
    by blast
  have c: "count_list pre ConnClose = 0" "count_list pre TickerStop = 0"
    using count_undisturbed[OF u] by simp_all
  have e: "e \<noteq> ConnClose" "e \<noteq> TickerStop" using failure_not_deferred[OF f] by simp_all
  have "count_list (fst (handleWS query None first ticks)) ConnClose = 1"
    "count_list (fst (handleWS query None first ticks)) TickerStop = 1"
    unfolding t using c e by simp_all
  then show ?thesis using r t f u by blast
qed

text \<open>
  A session whose third write fails, with one more tick ready that is never served (three
  fetches); and a session whose first fetch fails, which writes nothing.
\<close>

theorem failure_closes_session_witness:
  "snd (handleWS Map.empty None io_ok [io_ok, io_write_fails, io_ok]) = Returned
   \<and> count_list (fst (handleWS Map.empty None io_ok [io_ok, io_write_fails, io_ok])) ConnClose = 1
   \<and> count_list (fst (handleWS Map.empty None io_ok [io_ok, io_write_fails, io_ok])) TickerStop = 1
   \<and> fetches (fst (handleWS Map.empty None io_ok [io_ok, io_write_fails, io_ok])) = 3
   \<and> snd (handleWS Map.empty None io_fetch_fails [io_ok]) = Returned
   \<and> count_list (fst (handleWS Map.empty None io_fetch_fails [io_ok])) ConnClose = 1
   \<and> writes (fst (handleWS Map.empty None io_fetch_fails [io_ok])) = 0"
proof -
  have a: "\<exists>io \<in> set (io_ok # [io_ok, io_write_fails, io_ok]).
             (\<exists>e. fetchQuote (provider io) (session_symbol Map.empty) = Inl e)
             \<or> write_result io \<noteq> None"
    by (simp add: io_write_fails_def)
  have b: "\<exists>io \<in> set (io_fetch_fails # [io_ok]).
             (\<exists>e. fetchQuote (provider io) (session_symbol Map.empty) = Inl e)
             \<or> write_result io \<noteq> None"
    by (simp add: io_fetch_fails_def fetchQuote_def provider_quote_down_def)
  have "fetches (fst (handleWS Map.empty None io_ok [io_ok, io_write_fails, io_ok])) = 3"
    by (simp add: handleWS_run_write_fails fetches_def)
  moreover have "writes (fst (handleWS Map.empty None io_fetch_fails [io_ok])) = 0"
    by (simp add: handleWS_run_first_fails writes_def)
  ultimately show ?thesis
    using failure_closes_session[OF a] failure_closes_session[OF b] by blast
qed

subsection \<open>The session cut at the ticks\<close>

lemma fetches_simps [simp]:
  "fetches [] = 0"
  "fetches (x # xs) = (if is_fetch x then 1 else 0) + fetches xs"
  "fetches (xs @ ys) = fetches xs + fetches ys"
  by (simp_all add: fetches_def)

lemma writes_simps [simp]:
  "writes [] = 0"
  "writes (x # xs) = (if is_write x then 1 else 0) + writes xs"
  "writes (xs @ ys) = writes xs + writes ys"
  by (simp_all add: writes_def)

lemma split_ticks_nonempty [simp]: "split_ticks tr \<noteq> []"
  by (induction tr) auto

lemma split_ticks_prefix:
  "Tick \<notin> set pre \<Longrightarrow>
     split_ticks (pre @ tr) = (pre @ hd (split_ticks tr)) # tl (split_ticks tr)"
  by (induction pre) auto

lemma split_ticks_segments:
  "\<forall>s \<in> set segs. Tick \<notin> set s \<Longrightarrow>
     split_ticks (concat (map (\<lambda>s. Tick # s) segs)) = [] # segs"
proof (induction segs)
  case Nil
  show ?case by simp
next
  case (Cons s segs)
  have "split_ticks (s @ concat (map (\<lambda>s. Tick # s) segs)) = s # segs"
    using Cons by (simp add: split_ticks_prefix)
  then show ?case by simp
qed

lemma split_ticks_shape:
  assumes "Tick \<notin> set pre" "\<forall>s \<in> set segs. Tick \<notin> set s"
  shows "split_ticks (pre @ concat (map (\<lambda>s. Tick # s) segs)) = pre # segs"
  using assms by (simp add: split_ticks_prefix split_ticks_segments)

lemma sendQuote_cycle:
  "Tick \<notin> set (fst (sendQuote symbol io))"
  "fetches (fst (sendQuote symbol io)) = 1"
  "writes (fst (sendQuote symbol io)) =
     (case fetchQuote (provider io) symbol of Inl e \<Rightarrow> 0 | Inr q \<Rightarrow> 1)"
  "\<exists>r rest. fst (sendQuote symbol io) = FetchQuote symbol r # rest"
  by (auto simp: sendQuote_def Let_def split: sum.splits)

lemma segments_with_tail:
  assumes "segs \<noteq> []"
  shows "concat (map (\<lambda>s. Tick # s) segs) @ xs
           = concat (map (\<lambda>s. Tick # s) (butlast segs @ [last segs @ xs]))"
proof -
  have "segs = butlast segs @ [last segs]" using assms by simp
  then have "concat (map (\<lambda>s. Tick # s) segs)
               = concat (map (\<lambda>s. Tick # s) (butlast segs)) @ Tick # last segs"
    by (metis (no_types, lifting) append_Nil2 concat.simps concat_append list.simps(8,9) map_append)
  then show ?thesis by simp
qed

lemma closing_counts:
  assumes "list_all is_closing tail"
  shows "Tick \<notin> set tail" "fetches tail = 0" "writes tail = 0"
    "filter is_new_ticker tail = []"
proof -
  have a: "\<forall>x \<in> set tail. is_closing x" using assms by (simp add: list_all_iff)
  show "Tick \<notin> set tail" using a by auto
  have "\<forall>x \<in> set tail. \<not> is_fetch x \<and> \<not> is_write x \<and> \<not> is_new_ticker x"
  proof
    fix x assume "x \<in> set tail"
    then have "is_closing x" using a by simp
    then show "\<not> is_fetch x \<and> \<not> is_write x \<and> \<not> is_new_ticker x" by (cases x) simp_all
  qed
  then show "fetches tail = 0" "writes tail = 0" "filter is_new_ticker tail = []"
    by (simp_all add: fetches_def writes_def filter_empty_conv)
qed

lemma closing_deferred: "list_all is_closing deferred"
  by (simp add: deferred_def)

text \<open>The loop, cut at the ticks: the k-th segment is the k-th call, then closing events.\<close>

lemma loop_segments:
  "\<exists>segs. fst (ticker_loop symbol ios) = concat (map (\<lambda>s. Tick # s) segs)
     \<and> length segs \<le> length ios
     \<and> (\<forall>k < length segs. \<exists>tail. list_all is_closing tail
           \<and> segs ! k = fst (sendQuote symbol (ios ! k)) @ tail)
     \<and> (snd (ticker_loop symbol ios) = Returned \<longrightarrow> segs \<noteq> [])
     \<and> (snd (ticker_loop symbol ios) = Waiting \<longrightarrow> length segs = length ios)"
proof (induction ios)
  case Nil
  show ?case by (intro exI[of _ "[]"]) simp
next
  case (Cons io ios)
  obtain evs r where s: "sendQuote symbol io = (evs, r)" by (cases "sendQuote symbol io")
  show ?case
  proof (cases r)
    case (Some err)
    let ?segs = "[evs @ [Log ''ws send:'' err]]"
    have "fst (ticker_loop symbol (io # ios)) = concat (map (\<lambda>s. Tick # s) ?segs)"
      by (simp add: s Some)
    moreover have "\<forall>k < length ?segs. \<exists>tail. list_all is_closing tail
           \<and> ?segs ! k = fst (sendQuote symbol ((io # ios) ! k)) @ tail"
      by (simp add: s)
    moreover have "snd (ticker_loop symbol (io # ios)) = Returned" by (simp add: s Some)
    ultimately show ?thesis by (intro exI[of _ ?segs]) simp
  next
    case None
    from Cons.IH obtain segs where
      t: "fst (ticker_loop symbol ios) = concat (map (\<lambda>s. Tick # s) segs)"
      and n: "length segs \<le> length ios"
      and a: "\<forall>k < length segs. \<exists>tail. list_all is_closing tail
           \<and> segs ! k = fst (sendQuote symbol (ios ! k)) @ tail"
      and r: "snd (ticker_loop symbol ios) = Returned \<longrightarrow> segs \<noteq> []"
      and w: "snd (ticker_loop symbol ios) = Waiting \<longrightarrow> length segs = length ios"
      by blast
    obtain rest out where l: "ticker_loop symbol ios = (rest, out)"
      by (cases "ticker_loop symbol ios")
    let ?segs = "evs # segs"
    have "fst (ticker_loop symbol (io # ios)) = concat (map (\<lambda>s. Tick # s) ?segs)"
      using t l by (simp add: s None)
    moreover have "\<forall>k < length ?segs. \<exists>tail. list_all is_closing tail
           \<and> ?segs ! k = fst (sendQuote symbol ((io # ios) ! k)) @ tail"
    proof (intro allI impI)
      fix k assume k: "k < length ?segs"
      show "\<exists>tail. list_all is_closing tail
           \<and> ?segs ! k = fst (sendQuote symbol ((io # ios) ! k)) @ tail"
      proof (cases k)
        case 0
        then show ?thesis by (intro exI[of _ "[]"]) (simp add: s)
      next
        case (Suc j)
        then have "j < length segs" using k by simp
        then show ?thesis using a Suc by simp
      qed
    qed
    moreover have "snd (ticker_loop symbol (io # ios)) = out" using l by (simp add: s None)
    ultimately show ?thesis using n r w l by (intro exI[of _ ?segs]) auto
  qed
qed

lemma last_segment_tail:
  assumes "segs \<noteq> []"
    and "\<forall>k < length segs. \<exists>tail. list_all is_closing tail \<and> segs ! k = f k @ tail"
    and "list_all is_closing xs"
  shows "\<forall>k < length (butlast segs @ [last segs @ xs]).
           \<exists>tail. list_all is_closing tail \<and> (butlast segs @ [last segs @ xs]) ! k = f k @ tail"
proof (intro allI impI)
  fix k assume k: "k < length (butlast segs @ [last segs @ xs])"
  then have kl: "k < length segs" using assms(1) by simp
  from assms(2) kl obtain tail where t: "list_all is_closing tail" "segs ! k = f k @ tail"
    by blast
  show "\<exists>tail. list_all is_closing tail \<and> (butlast segs @ [last segs @ xs]) ! k = f k @ tail"
  proof (cases "k = length segs - 1")
    case True
    then have "(butlast segs @ [last segs @ xs]) ! k = last segs @ xs"
      by (simp add: nth_append)
    moreover have "last segs = segs ! k" using True assms(1) by (simp add: last_conv_nth)
    ultimately have "(butlast segs @ [last segs @ xs]) ! k = f k @ (tail @ xs)"
      using t by simp
    moreover have "list_all is_closing (tail @ xs)" using t assms(3) by simp
    ultimately show ?thesis by blast
  next
    case False
    then have "k < length (butlast segs)" using kl by simp
    then have "(butlast segs @ [last segs @ xs]) ! k = segs ! k"
      by (simp add: nth_append nth_butlast)
    then show ?thesis using t by auto
  qed
qed

text \<open>The whole session, cut at the ticks.\<close>

lemma handleWS_segments:
  "length (split_ticks (fst (handleWS query None first ticks))) \<le> length (first # ticks)
   \<and> (\<forall>k < length (split_ticks (fst (handleWS query None first ticks))).
         \<exists>tail. list_all is_closing tail
           \<and> split_ticks (fst (handleWS query None first ticks)) ! k
               = (if k = 0 then [NewTicker livePollInterval] else [])
                 @ fst (sendQuote (session_symbol query) ((first # ticks) ! k)) @ tail)
   \<and> (snd (handleWS query None first ticks) = Waiting \<longrightarrow>
         length (split_ticks (fst (handleWS query None first ticks))) = length (first # ticks))"
proof -
  let ?s = "session_symbol query"
  let ?tr = "fst (handleWS query None first ticks)"
  let ?f = "\<lambda>k. (if k = 0 then [NewTicker livePollInterval] else [])
                 @ fst (sendQuote ?s ((first # ticks) ! k))"
  obtain evs r where s: "sendQuote ?s first = (evs, r)" by (cases "sendQuote ?s first")
  have e: "Tick \<notin> set evs" using sendQuote_cycle(1)[of ?s first] s by simp
  obtain rest out where l: "ticker_loop ?s ticks = (rest, out)" by (cases "ticker_loop ?s ticks")
  from loop_segments[of ?s ticks] obtain segs where
    t: "rest = concat (map (\<lambda>s. Tick # s) segs)"
    and n: "length segs \<le> length ticks"
    and a: "\<forall>k < length segs. \<exists>tail. list_all is_closing tail
           \<and> segs ! k = fst (sendQuote ?s (ticks ! k)) @ tail"
    and ne: "out = Returned \<longrightarrow> segs \<noteq> []"
    and w: "out = Waiting \<longrightarrow> length segs = length ticks"
    using l by auto
  have tf: "\<forall>sg \<in> set segs. Tick \<notin> set sg"
  proof
    fix sg assume "sg \<in> set segs"
    then obtain k where k: "k < length segs" "sg = segs ! k" by (auto simp: in_set_conv_nth)
    then obtain tail where "list_all is_closing tail" "sg = fst (sendQuote ?s (ticks ! k)) @ tail"
      using a by blast
    then show "Tick \<notin> set sg"
      using closing_counts(1)[of tail] sendQuote_cycle(1)[of ?s "ticks ! k"] by simp
  qed
  have shape: "\<exists>pre segs'. ?tr = pre @ concat (map (\<lambda>s. Tick # s) segs')
      \<and> (\<exists>tail. list_all is_closing tail \<and> pre = NewTicker livePollInterval # evs @ tail)
      \<and> Tick \<notin> set pre \<and> (\<forall>sg \<in> set segs'. Tick \<notin> set sg)
      \<and> length segs' \<le> length ticks
      \<and> (\<forall>k < length segs'. \<exists>tail. list_all is_closing tail
             \<and> segs' ! k = fst (sendQuote ?s (ticks ! k)) @ tail)
      \<and> (snd (handleWS query None first ticks) = Waiting \<longrightarrow> length segs' = length ticks)"
  proof (cases r)
    case (Some err)
    let ?tail = "[Log ''ws first send:'' err] @ deferred"
    let ?pre = "NewTicker livePollInterval # evs @ ?tail"
    have c: "list_all is_closing ?tail" by (simp add: deferred_def)
    have "?tr = ?pre @ concat (map (\<lambda>s. Tick # s) [])"
      using s Some by (simp add: handleWS_def Let_def session_symbol_def)
    moreover have "Tick \<notin> set ?pre" using e by (simp add: deferred_def)
    moreover have "snd (handleWS query None first ticks) = Returned"
      using s Some by (simp add: handleWS_def Let_def session_symbol_def)
    ultimately show ?thesis using c by (intro exI[of _ ?pre] exI[of _ "[]"]) auto
  next
    case None
    let ?pre = "NewTicker livePollInterval # evs"
    have p: "Tick \<notin> set ?pre" using e by simp
    have pc: "\<exists>tail. list_all is_closing tail \<and> ?pre = NewTicker livePollInterval # evs @ tail"
      by (intro exI[of _ "[]"]) simp
    show ?thesis
    proof (cases out)
      case Waiting
      have "?tr = ?pre @ concat (map (\<lambda>s. Tick # s) segs)"
        using s None l Waiting t by (simp add: handleWS_def Let_def session_symbol_def)
      moreover have "snd (handleWS query None first ticks) = Waiting"
        using s None l Waiting by (simp add: handleWS_def Let_def session_symbol_def)
      ultimately show ?thesis using p pc tf n a w Waiting by blast
    next
      case Returned
      let ?segs = "butlast segs @ [last segs @ deferred]"
      have nz: "segs \<noteq> []" using ne Returned by simp
      have "?tr = ?pre @ rest @ deferred"
        using s None l Returned by (simp add: handleWS_def Let_def session_symbol_def)
      then have tr: "?tr = ?pre @ concat (map (\<lambda>s. Tick # s) ?segs)"
        using segments_with_tail[OF nz, of deferred] t by simp
      have a': "\<forall>k < length ?segs. \<exists>tail. list_all is_closing tail
             \<and> ?segs ! k = fst (sendQuote ?s (ticks ! k)) @ tail"
        using last_segment_tail[OF nz a closing_deferred] .
      have tf': "\<forall>sg \<in> set ?segs. Tick \<notin> set sg"
        using tf nz by (auto simp: deferred_def dest: in_set_butlastD)
      have len: "length ?segs \<le> length ticks" using n nz by simp
      have ret: "snd (handleWS query None first ticks) = Returned"
        using s None l Returned by (simp add: handleWS_def Let_def session_symbol_def)
      show ?thesis
      proof (rule exI[of _ ?pre], rule exI[of _ ?segs], intro conjI)
        show "?tr = ?pre @ concat (map (\<lambda>s. Tick # s) ?segs)" by (rule tr)
        show "\<exists>tail. list_all is_closing tail \<and> ?pre = NewTicker livePollInterval # evs @ tail"
          by (rule pc)
        show "Tick \<notin> set ?pre" by (rule p)
        show "\<forall>sg \<in> set ?segs. Tick \<notin> set sg" by (rule tf')
        show "length ?segs \<le> length ticks" by (rule len)
        show "\<forall>k < length ?segs. \<exists>tail. list_all is_closing tail
             \<and> ?segs ! k = fst (sendQuote ?s (ticks ! k)) @ tail"
          by (rule a')
        show "snd (handleWS query None first ticks) = Waiting \<longrightarrow> length ?segs = length ticks"
          using ret by simp
      qed
    qed
  qed
  then obtain pre segs' tail0 where
    tr: "?tr = pre @ concat (map (\<lambda>s. Tick # s) segs')"
    and c0: "list_all is_closing tail0" and pre: "pre = NewTicker livePollInterval # evs @ tail0"
    and p: "Tick \<notin> set pre" and tf': "\<forall>sg \<in> set segs'. Tick \<notin> set sg"
    and n': "length segs' \<le> length ticks"
    and a': "\<forall>k < length segs'. \<exists>tail. list_all is_closing tail
             \<and> segs' ! k = fst (sendQuote ?s (ticks ! k)) @ tail"
    and w': "snd (handleWS query None first ticks) = Waiting \<longrightarrow> length segs' = length ticks"
    by blast
  have sp: "split_ticks ?tr = pre # segs'"
    unfolding tr using p tf' by (rule split_ticks_shape)
  have "\<forall>k < length (pre # segs'). \<exists>tail. list_all is_closing tail
           \<and> (pre # segs') ! k = ?f k @ tail"
  proof (intro allI impI)
    fix k assume k: "k < length (pre # segs')"
    show "\<exists>tail. list_all is_closing tail \<and> (pre # segs') ! k = ?f k @ tail"
    proof (cases k)
      case 0
      then show ?thesis using c0 pre s by (intro exI[of _ tail0]) simp
    next
      case (Suc j)
      then have "j < length segs'" using k by simp
      then show ?thesis using a' Suc by simp
    qed
  qed
  then show ?thesis using n' w' by (simp add: sp)
qed

text \<open>Every event but a tick lies in one of the segments.\<close>

lemma in_split_ticks:
  assumes "x \<in> set tr" "x \<noteq> Tick"
  shows "\<exists>k < length (split_ticks tr). x \<in> set (split_ticks tr ! k)"
  using assms
proof (induction tr)
  case Nil
  then show ?case by simp
next
  case (Cons e es)
  show ?case
  proof (cases "x \<in> set es")
    case True
    from Cons.IH[OF True Cons.prems(2)] obtain k where
      k: "k < length (split_ticks es)" "x \<in> set (split_ticks es ! k)"
      by blast
    show ?thesis
    proof (cases "e = Tick")
      case True
      then have "Suc k < length (split_ticks (e # es))"
        "x \<in> set (split_ticks (e # es) ! Suc k)"
        using k by simp_all
      then show ?thesis by blast
    next
      case False
      have ne: "split_ticks es \<noteq> []" by simp
      show ?thesis
      proof (cases k)
        case 0
        then have "x \<in> set (hd (split_ticks es))" using k ne by (simp add: hd_conv_nth)
        then have "0 < length (split_ticks (e # es))" "x \<in> set (split_ticks (e # es) ! 0)"
          using False by simp_all
        then show ?thesis by blast
      next
        case (Suc j)
        then have "x \<in> set (tl (split_ticks es) ! j)" "j < length (tl (split_ticks es))"
          using k ne by (simp_all add: nth_tl)
        then have "Suc j < length (split_ticks (e # es))"
          "x \<in> set (split_ticks (e # es) ! Suc j)"
          using False by simp_all
        then show ?thesis by blast
      qed
    qed
  next
    case False
    then have "x = e" using Cons.prems(1) by simp
    then have "0 < length (split_ticks (e # es))" "x \<in> set (split_ticks (e # es) ! 0)"
      using Cons.prems(2) by simp_all
    then show ?thesis by blast
  qed
qed

lemma handleWS_head:
  "\<exists>r rest. fst (handleWS query None first ticks)
      = NewTicker livePollInterval # FetchQuote (session_symbol query) r # rest"
proof -
  let ?s = "session_symbol query"
  obtain evs r where s: "sendQuote ?s first = (evs, r)" by (cases "sendQuote ?s first")
  obtain fr more where h: "evs = FetchQuote ?s fr # more"
    using sendQuote_cycle(4)[of ?s first] s by auto
  obtain rest out where l: "ticker_loop ?s ticks = (rest, out)" by (cases "ticker_loop ?s ticks")
  show ?thesis
    using s h l
    by (cases r; cases out) (simp_all add: handleWS_def Let_def session_symbol_def)
qed

lemma sendQuote_no_ticker: "filter is_new_ticker (fst (sendQuote symbol io)) = []"
  by (simp add: sendQuote_def Let_def split: sum.splits)

lemma loop_no_ticker: "filter is_new_ticker (fst (ticker_loop symbol ios)) = []"
proof (induction ios)
  case Nil
  show ?case by simp
next
  case (Cons io ios)
  obtain evs r where s: "sendQuote symbol io = (evs, r)" by (cases "sendQuote symbol io")
  have e: "filter is_new_ticker evs = []" using sendQuote_no_ticker[of symbol io] s by simp
  obtain rest out where l: "ticker_loop symbol ios = (rest, out)"
    by (cases "ticker_loop symbol ios")
  show ?case using Cons.IH e l by (cases r) (simp_all add: s)
qed

lemma handleWS_one_ticker:
  "filter is_new_ticker (fst (handleWS query None first ticks)) = [NewTicker livePollInterval]"
proof -
  let ?s = "session_symbol query"
  obtain evs r where s: "sendQuote ?s first = (evs, r)" by (cases "sendQuote ?s first")
  have e: "filter is_new_ticker evs = []" using sendQuote_no_ticker[of ?s first] s by simp
  obtain rest out where l: "ticker_loop ?s ticks = (rest, out)" by (cases "ticker_loop ?s ticks")
  have t: "filter is_new_ticker rest = []" using loop_no_ticker[of ?s ticks] l by simp
  show ?thesis
    using s e l t
    by (cases r; cases out) (simp_all add: handleWS_def Let_def session_symbol_def deferred_def)
qed

subsection \<open>The messages of a session\<close>

lemma sendQuote_fetch_events:
  "FetchQuote s r \<in> set (fst (sendQuote symbol io)) \<Longrightarrow> s = symbol"
  by (auto simp: sendQuote_def Let_def split: sum.splits)

lemma loop_events:
  assumes "x \<in> set (fst (ticker_loop symbol ios))"
  shows "x = Tick \<or> (\<exists>err. x = Log ''ws send:'' err)
         \<or> (\<exists>io \<in> set ios. x \<in> set (fst (sendQuote symbol io)))"
  using assms
proof (induction ios)
  case Nil
  then show ?case by simp
next
  case (Cons io ios)
  obtain evs r where s: "sendQuote symbol io = (evs, r)" by (cases "sendQuote symbol io")
  obtain rest out where l: "ticker_loop symbol ios = (rest, out)"
    by (cases "ticker_loop symbol ios")
  show ?case
  proof (cases r)
    case (Some err)
    then have "x = Tick \<or> x \<in> set evs \<or> x = Log ''ws send:'' err"
      using Cons.prems s by auto
    then show ?thesis using s by auto
  next
    case None
    then have "x = Tick \<or> x \<in> set evs \<or> x \<in> set rest"
      using Cons.prems s l by auto
    then show ?thesis using Cons.IH s l by auto
  qed
qed

lemma handleWS_events:
  assumes "x \<in> set (fst (handleWS query upgrade first ticks))"
  shows "x = NewTicker livePollInterval \<or> x = Tick \<or> (\<exists>m err. x = Log m err)
         \<or> x = TickerStop \<or> x = ConnClose
         \<or> (\<exists>io \<in> set (first # ticks). x \<in> set (fst (sendQuote (session_symbol query) io)))"
proof (cases upgrade)
  case (Some err)
  then show ?thesis using assms by (simp add: handleWS_def Let_def)
next
  case None
  let ?s = "session_symbol query"
  obtain evs r where s: "sendQuote ?s first = (evs, r)" by (cases "sendQuote ?s first")
  obtain rest out where l: "ticker_loop ?s ticks = (rest, out)" by (cases "ticker_loop ?s ticks")
  have "x = NewTicker livePollInterval \<or> (\<exists>m err. x = Log m err) \<or> x = TickerStop
        \<or> x = ConnClose \<or> x \<in> set evs \<or> x \<in> set rest"
    using assms None s l
    by (cases r; cases out) (auto simp: handleWS_def Let_def session_symbol_def deferred_def)
  moreover have "x \<in> set rest \<Longrightarrow> x = Tick \<or> (\<exists>err. x = Log ''ws send:'' err)
         \<or> (\<exists>io \<in> set ticks. x \<in> set (fst (sendQuote ?s io)))"
    using loop_events[of x ?s ticks] l by simp
  ultimately show ?thesis using s by auto
qed

lemma sendQuote_write_event:
  assumes "WriteJSON p r \<in> set (fst (sendQuote symbol io))"
  shows "r = write_result io
         \<and> (\<exists>q. fetchQuote (provider io) symbol = Inr q
               \<and> FetchQuote symbol (Inr q) \<in> set (fst (sendQuote symbol io))
               \<and> p = [''symbol'' \<mapsto> AString symbol, ''price'' \<mapsto> AFloat64 (Current q),
                      ''time'' \<mapsto> AInt64 (UnixMilli (now_payload io))])"
  using assms by (auto simp: sendQuote_def Let_def split: sum.splits)

text \<open>
  Claim C9. Every fetch of a session asks for the session's symbol, which is AAPL when
  the \<^verbatim>\<open>symbol\<close> parameter is absent or empty and the parameter otherwise. Cut the
  trace at the ticks: every message lies in one segment, segment 0 being the first call
  of \<^verbatim>\<open>sendQuote\<close> and segment k the call that serves the k-th tick. A message of segment
  k has exactly the keys \<^verbatim>\<open>symbol\<close>, \<^verbatim>\<open>price\<close> and \<^verbatim>\<open>time\<close>: the session's
  symbol, the \<^verbatim>\<open>c\<close> of the quote fetched in that same call (the fetch of that segment)
  as a \<^verbatim>\<open>float64\<close>, and the clock reading of that same call in milliseconds since
  the epoch; its write returns what the connection answers in that call.
\<close>

theorem pushed_messages:
  "(\<forall>s r. FetchQuote s r \<in> set (fst (handleWS query upgrade first ticks))
       \<longrightarrow> s = session_symbol query)
   \<and> (\<forall>p r. WriteJSON p r \<in> set (fst (handleWS query upgrade first ticks))
       \<longrightarrow> (\<exists>k < length (split_ticks (fst (handleWS query upgrade first ticks))).
              WriteJSON p r \<in> set (split_ticks (fst (handleWS query upgrade first ticks)) ! k)))
   \<and> (\<forall>k p r. k < length (split_ticks (fst (handleWS query upgrade first ticks)))
         \<and> WriteJSON p r \<in> set (split_ticks (fst (handleWS query upgrade first ticks)) ! k)
       \<longrightarrow> k < length (first # ticks)
           \<and> r = write_result ((first # ticks) ! k)
           \<and> dom p = {''symbol'', ''price'', ''time''}
           \<and> (\<exists>q. fetchQuote (provider ((first # ticks) ! k)) (session_symbol query) = Inr q
                 \<and> FetchQuote (session_symbol query) (Inr q)
                     \<in> set (split_ticks (fst (handleWS query upgrade first ticks)) ! k)
                 \<and> p = [''symbol'' \<mapsto> AString (session_symbol query),
                        ''price'' \<mapsto> AFloat64 (Current q),
                        ''time'' \<mapsto> AInt64 (UnixMilli (now_payload ((first # ticks) ! k)))]))
   \<and> (query ''symbol'' = None \<or> query ''symbol'' = Some []
         \<or> (\<exists>rest. query ''symbol'' = Some ([] # rest))
       \<longrightarrow> session_symbol query = ''AAPL'')
   \<and> (\<forall>v rest. query ''symbol'' = Some (v # rest) \<and> v \<noteq> []
       \<longrightarrow> session_symbol query = v)"
proof (intro conjI allI impI)
  fix s r assume "FetchQuote s r \<in> set (fst (handleWS query upgrade first ticks))"
  from handleWS_events[OF this] obtain io where
    "FetchQuote s r \<in> set (fst (sendQuote (session_symbol query) io))"
    by auto
  then show "s = session_symbol query" by (rule sendQuote_fetch_events)
next
  fix p r assume "WriteJSON p r \<in> set (fst (handleWS query upgrade first ticks))"
  then show "\<exists>k < length (split_ticks (fst (handleWS query upgrade first ticks))).
              WriteJSON p r \<in> set (split_ticks (fst (handleWS query upgrade first ticks)) ! k)"
    by (rule in_split_ticks) simp
next
  fix k p r
  let ?tr = "fst (handleWS query upgrade first ticks)"
  let ?s = "session_symbol query"
  let ?io = "(first # ticks) ! k"
  assume "k < length (split_ticks ?tr) \<and> WriteJSON p r \<in> set (split_ticks ?tr ! k)"
  then have k: "k < length (split_ticks ?tr)" and w: "WriteJSON p r \<in> set (split_ticks ?tr ! k)"
    by simp_all
  have up: "upgrade = None"
  proof (cases upgrade)
    case (Some err)
    then have "split_ticks ?tr = [[Log ''ws upgrade:'' err]]"
      by (simp add: handleWS_def Let_def)
    then show ?thesis using k w by simp
  qed simp
  note sg = handleWS_segments[of query first ticks]
  from sg k up obtain tail where
    t: "list_all is_closing tail"
    and eq: "split_ticks ?tr ! k = (if k = 0 then [NewTicker livePollInterval] else [])
               @ fst (sendQuote ?s ?io) @ tail"
    by auto
  have nt: "WriteJSON p r \<notin> set tail"
  proof
    assume "WriteJSON p r \<in> set tail"
    then have "is_closing (WriteJSON p r)" using t by (auto simp: list_all_iff)
    then show False by simp
  qed
  have m: "WriteJSON p r \<in> set (fst (sendQuote ?s ?io))"
    using w nt unfolding eq by (auto split: if_splits)
  from sendQuote_write_event[OF m] obtain q where
    r: "r = write_result ?io"
    and q: "fetchQuote (provider ?io) ?s = Inr q"
    and f: "FetchQuote ?s (Inr q) \<in> set (fst (sendQuote ?s ?io))"
    and p: "p = [''symbol'' \<mapsto> AString ?s, ''price'' \<mapsto> AFloat64 (Current q),
                  ''time'' \<mapsto> AInt64 (UnixMilli (now_payload ?io))]"
    by blast
  show "k < length (first # ticks)" using sg k up by simp
  show "r = write_result ?io" by (rule r)
  show "dom p = {''symbol'', ''price'', ''time''}" unfolding p by auto
  have "FetchQuote ?s (Inr q) \<in> set (split_ticks ?tr ! k)" unfolding eq using f by simp
  then show "\<exists>q. fetchQuote (provider ?io) ?s = Inr q
                 \<and> FetchQuote ?s (Inr q) \<in> set (split_ticks ?tr ! k)
                 \<and> p = [''symbol'' \<mapsto> AString ?s, ''price'' \<mapsto> AFloat64 (Current q),
                        ''time'' \<mapsto> AInt64 (UnixMilli (now_payload ?io))]"
    using q p by blast
next
  assume "query ''symbol'' = None \<or> query ''symbol'' = Some []
         \<or> (\<exists>rest. query ''symbol'' = Some ([] # rest))"
  then show "session_symbol query = ''AAPL''"
    by (auto simp: session_symbol_def Get_def)
next
  fix v rest assume "query ''symbol'' = Some (v # rest) \<and> v \<noteq> []"
  then show "session_symbol query = v" by (simp add: session_symbol_def Get_def)
qed

text \<open>
  A session without \<^verbatim>\<open>symbol\<close> whose second call fetches another price at a later
  time: the message after the first tick is for AAPL and carries the second price and
  the second clock reading.
\<close>

theorem pushed_messages_witness:
  "WriteJSON payload_AAPL_next None
     \<in> set (split_ticks (fst (handleWS Map.empty None io_ok [io_next, io_fetch_fails, io_ok])) ! 1)
   \<and> dom payload_AAPL_next = {''symbol'', ''price'', ''time''}
   \<and> payload_AAPL_next =
       [''symbol'' \<mapsto> AString ''AAPL'', ''price'' \<mapsto> AFloat64 (Current quote_19025),
        ''time'' \<mapsto> AInt64 (UnixMilli (now_payload io_next))]
   \<and> Current quote_19025 = 4640897843354140672
   \<and> UnixMilli (now_payload io_next) = 1700000005123
   \<and> session_symbol Map.empty = ''AAPL''"
proof -
  let ?tr = "fst (handleWS Map.empty None io_ok [io_next, io_fetch_fails, io_ok])"
  note t = pushed_messages [where query = Map.empty and upgrade = None and first = io_ok
             and ticks = "[io_next, io_fetch_fails, io_ok]"]
  note t3 = t[THEN conjunct2, THEN conjunct2, THEN conjunct1, rule_format]
  have k: "1 < length (split_ticks ?tr)" by (simp add: split_run_two_quotes)
  have m: "WriteJSON payload_AAPL_next None \<in> set (split_ticks ?tr ! 1)"
    by (simp add: split_run_two_quotes)
  have s: "session_symbol Map.empty = ''AAPL''"
    using t[THEN conjunct2, THEN conjunct2, THEN conjunct2, THEN conjunct1] by simp
  have f1: "fetchQuote (provider io_next) ''AAPL'' = Inr quote_19025"
    by (simp add: io_next_def fetchQuote_def provider_quote_def body_quote_next_def
        decode_quoteResp_def field_of_key_def quote_19025_def zero_quoteResp_def)
  from t3[of 1 payload_AAPL_next None] k m have a: "dom payload_AAPL_next = {''symbol'', ''price'', ''time''}
           \<and> (\<exists>q. fetchQuote (provider ([io_ok, io_next, io_fetch_fails, io_ok] ! 1))
                      (session_symbol Map.empty) = Inr q
                 \<and> payload_AAPL_next = [''symbol'' \<mapsto> AString (session_symbol Map.empty),
                        ''price'' \<mapsto> AFloat64 (Current q),
                        ''time'' \<mapsto> AInt64 (UnixMilli
                           (now_payload ([io_ok, io_next, io_fetch_fails, io_ok] ! 1)))])"
    by auto
  then have "payload_AAPL_next =
       [''symbol'' \<mapsto> AString ''AAPL'', ''price'' \<mapsto> AFloat64 (Current quote_19025),
        ''time'' \<mapsto> AInt64 (UnixMilli (now_payload io_next))]"
    using f1 s by auto
  moreover have "Current quote_19025 = 4640897843354140672"
    "UnixMilli (now_payload io_next) = 1700000005123"
    by (simp_all add: quote_19025_def io_next_def UnixMilli_def)
  ultimately show ?thesis using m a s by simp
qed

subsection \<open>The first send and the ticks\<close>

text \<open>
  Claim C1, as amended. In a session whose upgrade succeeded the handler first creates
  the ticker, with the interval of 5 seconds, and creates no other; the next event is the
  first fetch. Cut at the ticks, the trace has at most one segment more than ticks have
  arrived, and exactly one more while the handler has not returned. Segment 0, before
  the first tick, is the ticker's creation and the events of the first call of
  \<^verbatim>\<open>sendQuote\<close>; segment k, after the k-th tick, is the events of the call that serves
  that tick; either may be followed only by the events that end the session. So every
  segment has exactly one fetch, and exactly one message when that fetch succeeded and
  none when it failed.
\<close>

theorem first_send_then_ticks:
  "(\<exists>r rest. fst (handleWS query None first ticks)
       = NewTicker (5 * Second) # FetchQuote (session_symbol query) r # rest)
   \<and> filter is_new_ticker (fst (handleWS query None first ticks)) = [NewTicker (5 * Second)]
   \<and> length (split_ticks (fst (handleWS query None first ticks))) \<le> 1 + length ticks
   \<and> (snd (handleWS query None first ticks) = Waiting \<longrightarrow>
         length (split_ticks (fst (handleWS query None first ticks))) = 1 + length ticks)
   \<and> (\<forall>k < length (split_ticks (fst (handleWS query None first ticks))).
         (\<exists>tail. list_all is_closing tail
            \<and> split_ticks (fst (handleWS query None first ticks)) ! k
                = (if k = 0 then [NewTicker (5 * Second)] else [])
                  @ fst (sendQuote (session_symbol query) ((first # ticks) ! k)) @ tail)
         \<and> fetches (split_ticks (fst (handleWS query None first ticks)) ! k) = 1
         \<and> writes (split_ticks (fst (handleWS query None first ticks)) ! k) =
             (case fetchQuote (provider ((first # ticks) ! k)) (session_symbol query) of
                Inl e \<Rightarrow> 0 | Inr q \<Rightarrow> 1))"
proof -
  let ?tr = "fst (handleWS query None first ticks)"
  let ?s = "session_symbol query"
  note sg = handleWS_segments[of query first ticks]
  have a: "\<exists>r rest. ?tr = NewTicker (5 * Second) # FetchQuote ?s r # rest"
    using handleWS_head[of query first ticks] by (simp add: livePollInterval_def)
  have b: "filter is_new_ticker ?tr = [NewTicker (5 * Second)]"
    using handleWS_one_ticker[of query first ticks] by (simp add: livePollInterval_def)
  have c: "length (split_ticks ?tr) \<le> 1 + length ticks" using sg by simp
  have d: "snd (handleWS query None first ticks) = Waiting \<longrightarrow>
         length (split_ticks ?tr) = 1 + length ticks"
    using sg by simp
  have e: "\<forall>k < length (split_ticks ?tr).
         (\<exists>tail. list_all is_closing tail
            \<and> split_ticks ?tr ! k
                = (if k = 0 then [NewTicker (5 * Second)] else [])
                  @ fst (sendQuote ?s ((first # ticks) ! k)) @ tail)
         \<and> fetches (split_ticks ?tr ! k) = 1
         \<and> writes (split_ticks ?tr ! k) =
             (case fetchQuote (provider ((first # ticks) ! k)) ?s of Inl e \<Rightarrow> 0 | Inr q \<Rightarrow> 1)"
  proof (intro allI impI)
    fix k assume k: "k < length (split_ticks ?tr)"
    let ?io = "(first # ticks) ! k"
    let ?pre = "if k = 0 then [NewTicker (5 * Second)] else []"
    from sg k obtain tail where
      t: "list_all is_closing tail"
      and eq: "split_ticks ?tr ! k = ?pre @ fst (sendQuote ?s ?io) @ tail"
      by (auto simp: livePollInterval_def)
    have "fetches (split_ticks ?tr ! k) = 1"
      unfolding eq using closing_counts(2)[OF t] sendQuote_cycle(2)[of ?s ?io] by simp
    moreover have "writes (split_ticks ?tr ! k) =
             (case fetchQuote (provider ?io) ?s of Inl e \<Rightarrow> 0 | Inr q \<Rightarrow> 1)"
      unfolding eq using closing_counts(3)[OF t] sendQuote_cycle(3)[of ?s ?io] by simp
    ultimately show "(\<exists>tail. list_all is_closing tail
            \<and> split_ticks ?tr ! k = ?pre @ fst (sendQuote ?s ?io) @ tail)
         \<and> fetches (split_ticks ?tr ! k) = 1
         \<and> writes (split_ticks ?tr ! k) =
             (case fetchQuote (provider ?io) ?s of Inl e \<Rightarrow> 0 | Inr q \<Rightarrow> 1)"
      using t eq by blast
  qed
  show ?thesis
    by (intro conjI; (rule a | rule b | rule c | rule d | rule e))
qed

text \<open>
  A session served two ticks, the second fetch failing: three segments, one fetch in
  each, one message in the first two and none in the third.
\<close>

theorem first_send_then_ticks_witness:
  "length (split_ticks (fst (handleWS Map.empty None io_ok [io_next, io_fetch_fails, io_ok]))) = 3
   \<and> fetches (split_ticks (fst (handleWS Map.empty None io_ok [io_next, io_fetch_fails, io_ok])) ! 0) = 1
   \<and> writes (split_ticks (fst (handleWS Map.empty None io_ok [io_next, io_fetch_fails, io_ok])) ! 0) = 1
   \<and> fetches (split_ticks (fst (handleWS Map.empty None io_ok [io_next, io_fetch_fails, io_ok])) ! 1) = 1
   \<and> writes (split_ticks (fst (handleWS Map.empty None io_ok [io_next, io_fetch_fails, io_ok])) ! 1) = 1
   \<and> fetches (split_ticks (fst (handleWS Map.empty None io_ok [io_next, io_fetch_fails, io_ok])) ! 2) = 1
   \<and> writes (split_ticks (fst (handleWS Map.empty None io_ok [io_next, io_fetch_fails, io_ok])) ! 2) = 0"
proof -
  let ?segs = "split_ticks (fst (handleWS Map.empty None io_ok [io_next, io_fetch_fails, io_ok]))"
  note t = first_send_then_ticks [where query = Map.empty and first = io_ok
             and ticks = "[io_next, io_fetch_fails, io_ok]",
             THEN conjunct2, THEN conjunct2, THEN conjunct2, THEN conjunct2, rule_format]
  note f = t[THEN conjunct2, THEN conjunct1]
  note w = t[THEN conjunct2, THEN conjunct2]
  have len: "length ?segs = 3" unfolding split_run_two_quotes by simp
  have lt: "0 < length ?segs" "1 < length ?segs" "2 < length ?segs" by (simp_all add: len)
  have f0: "fetchQuote (provider io_ok) ''AAPL'' = Inr quote_1895"
    by (simp add: io_ok_def fetch_body_quote)
  have f1: "fetchQuote (provider io_next) ''AAPL'' = Inr quote_19025"
    by (simp add: io_next_def fetchQuote_def provider_quote_def body_quote_next_def
        decode_quoteResp_def field_of_key_def quote_19025_def zero_quoteResp_def)
  have f2: "fetchQuote (provider io_fetch_fails) ''AAPL''
              = Inl (TransportError ''dial tcp: i/o timeout'')"
    by (simp add: io_fetch_fails_def fetchQuote_def provider_quote_down_def)
  have n0: "(io_ok # [io_next, io_fetch_fails, io_ok]) ! 0 = io_ok"
    and n1: "(io_ok # [io_next, io_fetch_fails, io_ok]) ! 1 = io_next"
    and n2: "(io_ok # [io_next, io_fetch_fails, io_ok]) ! 2 = io_fetch_fails"
    by simp_all
  have w0: "writes (?segs ! 0) = 1"
    using w[OF lt(1)] unfolding n0 session_symbol_empty f0 by simp
  have w1: "writes (?segs ! 1) = 1"
    using w[OF lt(2)] unfolding n1 session_symbol_empty f1 by simp
  have w2: "writes (?segs ! 2) = 0"
    using w[OF lt(3)] unfolding n2 session_symbol_empty f2 by simp
  show ?thesis
    using len f[OF lt(1)] f[OF lt(2)] f[OF lt(3)] w0 w1 w2 by (intro conjI)
qed

text \<open>
  Claim C1 as stated fails where it says that the first fetch-and-send happens before
  the timer is armed: the ticker is created at position 0 of the trace, the first fetch
  is at position 1 and the first message at position 3.
\<close>

theorem timer_armed_before_first_send_counterexample:
  "first_index is_new_ticker (fst (handleWS Map.empty None io_ok [])) = 0
   \<and> first_index is_fetch (fst (handleWS Map.empty None io_ok [])) = 1
   \<and> first_index is_write (fst (handleWS Map.empty None io_ok [])) = 3
   \<and> \<not> (first_index is_write (fst (handleWS Map.empty None io_ok []))
          < first_index is_new_ticker (fst (handleWS Map.empty None io_ok [])))"
proof -
  have "handleWS Map.empty None io_ok [] =
     ([NewTicker 5000000000,
       FetchQuote ''AAPL'' (Inr quote_1895), SetWriteDeadline 1700000005123460000,
       WriteJSON payload_AAPL None], Waiting)"
    by (simp add: handleWS_def Let_def Get_def sendQuote_io_ok deferred_def
        livePollInterval_def Second_def)
  then show ?thesis by (simp add: first_index_def)
qed

end
